theory Spec2Isabelle
  imports Main
begin

section \<open>Data model\<close>

text \<open>
  The element type of \<open>SOUsers.Items\<close> (src/main.go, lines 29-60). Only the fields
  that the program reads are kept; the remaining decoded fields (badge counts, dates,
  reputation changes, user type, user id, accept rate, employee flag) are never read.
  Go's \<open>int\<close> is modelled as \<open>int\<close>: the only arithmetic on it is the increment of the
  accepted counter and of the page and error counters, none of which can reach \<open>2^63\<close>.
\<close>

record SOUser =
  uAccountID :: int
  uReputation :: int
  uLocation :: string
  uWebsiteURL :: string
  uLink :: string
  uProfileImage :: string
  uDisplayName :: string

record SOUsers =
  Items :: "SOUser list"
  HasMore :: bool
  QuotaMax :: int
  QuotaRemaining :: int

text \<open>\<open>SOUserRank\<close> (src/main.go, lines 62-71) and \<open>Ranks = []SOUserRank\<close>.\<close>

record SOUserRank =
  Rank :: int
  AccountID :: int
  DisplayName :: string
  Reputation :: int
  Location :: string
  WebsiteURL :: string
  Link :: string
  ProfileImage :: string

type_synonym Ranks = "SOUserRank list"

text \<open>
  The lines the \<open>Info\<close> logger receives from \<open>GetUserInfo\<close>, one constructor for each
  logging call, with the arguments as they are passed (before \<open>html.UnescapeString\<close>
  and before formatting).
\<close>

datatype info_line =
  InfoUserData
  | InfoUserHeader
  | InfoUserRow int string int string

section \<open>The Rank Filter: \<open>GetUserInfo\<close> (src/main.go, lines 160-196)\<close>

text \<open>
  \<open>*counter\<close>, \<open>*ranks\<close> and the output of the \<open>Info\<close> logger are threaded through the
  loop as a triple. \<open>MinReputation\<close> is a package constant in src/main.go (400) and an
  argument of \<open>lib.GetUserInfo\<close> in the later driver (500); it is a parameter here.
  \<open>location\<close> stands for \<open>location.MatchString\<close> of the compiled pattern.
\<close>

text \<open>The struct literal of lines 173-180.\<close>

definition rank_entry :: "int \<Rightarrow> SOUser \<Rightarrow> SOUserRank" where
  "rank_entry counter user =
     \<lparr>Rank = counter,
      AccountID = uAccountID user,
      DisplayName = uDisplayName user,
      Reputation = uReputation user,
      Location = uLocation user,
      WebsiteURL = uWebsiteURL user,
      Link = uLink user,
      ProfileImage = uProfileImage user\<rparr>"

type_synonym filter_state = "int \<times> Ranks \<times> info_line list"

fun GetUserInfo_range ::
  "int \<Rightarrow> (string \<Rightarrow> bool) \<Rightarrow> int \<Rightarrow> bool \<Rightarrow> SOUser list \<Rightarrow> filter_state \<Rightarrow> bool \<times> filter_state"
where
  "GetUserInfo_range MinReputation location limit term [] st = (True, st)"
| "GetUserInfo_range MinReputation location limit term (user # rest) (counter, ranks, out) =
     (if uReputation user < MinReputation then (False, (counter, ranks, out))
      else if location (uLocation user) then
        (let counter1 = counter + 1;
             out1 = (if counter1 = 1 \<and> term then out @ [InfoUserData, InfoUserHeader] else out);
             s = rank_entry counter1 user;
             ranks1 = ranks @ [s];
             out2 = (if term
                     then out1 @ [InfoUserRow counter1 (uDisplayName user) (uReputation user) (uLocation user)]
                     else out1)
         in if counter1 \<ge> limit \<and> limit \<noteq> 0 then (False, (counter1, ranks1, out2))
            else GetUserInfo_range MinReputation location limit term rest (counter1, ranks1, out2))
      else GetUserInfo_range MinReputation location limit term rest (counter, ranks, out))"

text \<open>
  \<open>users\<close> is a pointer: \<open>None\<close> is the nil pointer, whose dereference \<open>users.Items\<close>
  panics; the panic is the result \<open>None\<close>.
\<close>

definition GetUserInfo ::
  "SOUsers option \<Rightarrow> int \<Rightarrow> (string \<Rightarrow> bool) \<Rightarrow> int \<Rightarrow> int \<Rightarrow> Ranks \<Rightarrow> bool
     \<Rightarrow> (bool \<times> filter_state) option"
where
  "GetUserInfo users MinReputation location counter limit ranks term =
     (case users of
        None \<Rightarrow> None
      | Some u \<Rightarrow> Some (GetUserInfo_range MinReputation location limit term (Items u) (counter, ranks, [])))"

section \<open>The JSON Writer\<close>

text \<open>
  \<open>DumpJson\<close> (src/main.go, lines 198-214) writes \<open>json.MarshalIndent(*ranks, "", " ")\<close>.
  The package \<open>encoding/json\<close> is not part of the repository. It is modelled from its
  documentation at the level of JSON documents: what the repository decides is the
  document that stands for a Result List, through the field tags of \<open>SOUserRank\<close> (lines
  62-71); how the package spells a document as text, and reads the text back, is the same
  for every document whose strings are valid UTF-8, as those of a Result List are (they
  come out of the package's decoder).
\<close>

datatype json =
  JNull
  | JBool bool
  | JNumber int
  | JString string
  | JArray "json list"
  | JObject "(string \<times> json) list"

text \<open>
  A struct encodes as an object with one member for each field, in the order of the
  fields, under the name of the field's tag; a field tagged \<open>omitempty\<close> is left out when
  it is empty (the string \<open>""\<close>).
\<close>

definition Marshal_SOUserRank :: "SOUserRank \<Rightarrow> json" where
  "Marshal_SOUserRank r =
     JObject
       ([(''rank'', JNumber (Rank r)),
         (''account_id'', JNumber (AccountID r)),
         (''display_name'', JString (DisplayName r)),
         (''reputation'', JNumber (Reputation r))] @
        (if Location r = '''' then [] else [(''location'', JString (Location r))]) @
        (if WebsiteURL r = '''' then [] else [(''website_url'', JString (WebsiteURL r))]) @
        [(''link'', JString (Link r)),
         (''profile_image'', JString (ProfileImage r))])"

text \<open>
  A slice encodes as an array, a nil slice as \<open>null\<close>. \<open>ranks\<close> is declared without a
  value and grows by \<open>append\<close>, so it is nil exactly when it is empty.
\<close>

definition Marshal_Ranks :: "Ranks \<Rightarrow> json" where
  "Marshal_Ranks rs = (if rs = [] then JNull else JArray (map Marshal_SOUserRank rs))"

text \<open>
  Decoding into a struct: a member is matched to the field whose tag is its key, exactly
  or without regard to case (here: of the ASCII letters; Unicode case folding also takes
  the Kelvin sign for \<open>k\<close> and the long s for \<open>s\<close>); a member that matches no field is
  ignored; \<open>null\<close> leaves the field as it is; a number goes into an \<open>int\<close> field and a
  string into a \<open>string\<close> field, any other value is an error (\<open>None\<close>).
\<close>

definition ascii_lower :: "char \<Rightarrow> char" where
  "ascii_lower c =
     (let n = (of_char c :: nat) in if 65 \<le> n \<and> n \<le> 90 then char_of (n + 32) else c)"









section \<open>The drivers\<close>

text \<open>
  The repository holds two drivers: \<open>main\<close> of src/main.go (constants on lines 20-27) and
  the later \<open>main\<close> of src/unnamed/part\_000 (constants on lines 13-23), which calls the
  same functions through the package \<open>lib\<close>.
\<close>

definition MaxErrors :: int where "MaxErrors = 3"

definition MaxPages_main_go :: int where "MaxPages_main_go = 1"
definition MinReputation_main_go :: int where "MinReputation_main_go = 400"

definition MaxPages_part_000 :: int where "MaxPages_part_000 = 1100"
definition MinReputation_part_000 :: int where "MinReputation_part_000 = 500"

text \<open>The command-line flags (src/unnamed/part\_000, lines 28-34; src/main.go has no \<open>publish\<close>).\<close>

record flags =
  flag_location :: string
  flag_json :: string
  flag_jsonrsp :: string
  flag_mdrsp :: string
  flag_limit :: int
  flag_term :: bool
  flag_publish :: string

definition default_flags :: flags where
  "default_flags = \<lparr>flag_location = ''.'', flag_json = '''', flag_jsonrsp = '''', flag_mdrsp = '''',
     flag_limit = 20, flag_term = False, flag_publish = ''''\<rparr>"

text \<open>
  What a call of \<open>StreamHTTP\<close> or \<open>StreamFile\<close> hands back: the decoded page behind the
  pointer (\<open>None\<close> is the nil pointer) and the error (\<open>None\<close> is nil).
\<close>

record response =
  rsp_users :: "SOUsers option"
  rsp_err :: "string option"

text \<open>
  The world outside the process: the regular-expression compiler (\<open>None\<close>: the pattern
  does not compile, \<open>regexp.MustCompile\<close> panics), what \<open>GetKey\<close> returns (the same at
  every call; the warning it logs when there is no key file is left out), the results of
  the successive calls of \<open>StreamHTTP\<close> or \<open>StreamFile\<close> that have arrived, and whether a
  file can be created and written.
\<close>

record world =
  Compile :: "string \<Rightarrow> (string \<Rightarrow> bool) option"
  GetKey :: string
  Stream :: "response list"
  Writable :: "string \<Rightarrow> bool"

text \<open>
  The observable actions of a run, in order. The \<open>Trace\<close> logger writes to
  \<open>ioutil.Discard\<close>, so its lines are not actions.
\<close>

datatype event =
  LogInfo string
  | LogWarning string
  | LogError string
  | LogUser info_line
  | LogPagesRequested int
  | LogUsersFound int
  | CallGetKey
  | CallStreamHTTP int string
  | CallStreamFile string
  | CallDumpJson string json
  | CallDumpMarkdown string Ranks
  | CallGitHubConnector string string

text \<open>The local variables of \<open>main\<close> that live across loop iterations, and the actions so far.\<close>

record loop_state =
  stop :: bool
  streamErrors :: int
  currentPage :: int
  lastPage :: int
  counter :: int
  users :: "SOUsers option"
  ranks :: Ranks
  key :: string
  events :: "event list"

definition initial_state :: loop_state where
  "initial_state = \<lparr>stop = False, streamErrors = 0, currentPage = 1, lastPage = 1, counter = 0,
     users = None, ranks = [], key = '''', events = []\<rparr>"

text \<open>
  How one pass through the loop body ends: at the loop head again (\<open>continue\<close>, or the
  end of the body), at \<open>break\<close>, in \<open>os.Exit\<close>, or in a panic.
\<close>

datatype step =
  Continue loop_state
  | Break loop_state
  | OsExit int "event list"
  | Panicked "event list"

text \<open>
  \<open>for { ... }\<close>: every pass through the body makes exactly one call of \<open>StreamHTTP\<close> or
  \<open>StreamFile\<close>, so the loop is a recursion over the results of these calls. When the
  results that have arrived are used up the loop is at its head (\<open>Continue\<close>), about to
  start the next pass; \<open>main\<close> below goes on from there up to the next call.
\<close>

fun for_loop :: "(loop_state \<Rightarrow> response \<Rightarrow> step) \<Rightarrow> loop_state \<Rightarrow> response list \<Rightarrow> step" where
  "for_loop body st [] = Continue st"
| "for_loop body st (r # rs) =
     (case body st r of
        Continue st1 \<Rightarrow> for_loop body st1 rs
      | Break st1 \<Rightarrow> Break st1
      | OsExit code ev \<Rightarrow> OsExit code ev
      | Panicked ev \<Rightarrow> Panicked ev)"

definition new_SOUsers :: SOUsers where
  "new_SOUsers = \<lparr>Items = [], HasMore = False, QuotaMax = 0, QuotaRemaining = 0\<rparr>"

subsection \<open>The parts of the loop body that the two drivers share\<close>

text \<open>
  The failure branch of the fetch (src/main.go, lines 313-319; src/unnamed/part\_000,
  lines 86-92): count the error, leave with \<open>os.Exit(5)\<close> at \<open>MaxErrors\<close>, else \<open>continue\<close>.
\<close>

definition stream_failed :: "loop_state \<Rightarrow> step" where
  "stream_failed st =
     (let st1 = st\<lparr>events := events st @ [LogWarning ''Can't stream data.'']\<rparr>;
          st2 = st1\<lparr>streamErrors := streamErrors st1 + 1\<rparr>
      in if streamErrors st2 \<ge> MaxErrors
         then OsExit 5 (events st2 @ [LogError ''Max retry number reached''])
         else Continue st2)"

text \<open>
  The call of the Rank Filter and the end of the loop body (src/main.go, lines 332-341;
  src/unnamed/part\_000, lines 107-117), with the driver's constants as parameters.
  \<open>||\<close> evaluates \<open>users.HasMore\<close> only when the page bound did not already decide.
\<close>

definition filter_and_advance ::
  "int \<Rightarrow> int \<Rightarrow> flags \<Rightarrow> (string \<Rightarrow> bool) \<Rightarrow> loop_state \<Rightarrow> step"
where
  "filter_and_advance MinReputation MaxPages fl re st =
     (case GetUserInfo (users st) MinReputation re (counter st) (flag_limit fl) (ranks st) (flag_term fl) of
        None \<Rightarrow> Panicked (events st)
      | Some (repLimit, (c, rs, out)) \<Rightarrow>
          (let st1 = st\<lparr>counter := c, ranks := rs, events := events st @ map LogUser out\<rparr> in
           if \<not> repLimit then Break st1
           else
             (let st2 = st1\<lparr>lastPage := currentPage st1\<rparr>;
                  st3 = st2\<lparr>currentPage := currentPage st2 + 1\<rparr>
              in if currentPage st3 \<ge> MaxPages \<and> MaxPages \<noteq> 0 then Break st3
                 else (case users st3 of
                         None \<Rightarrow> Panicked (events st3)
                       | Some u \<Rightarrow> if \<not> HasMore u \<or> stop st3 then Break st3 else Continue st3))))"

text \<open>
  The file branch (src/main.go, lines 322-329; src/unnamed/part\_000, lines 95-102):
  \<open>request_file\<close> is the pass up to the call of \<open>StreamFile\<close>, \<open>read_file\<close> the branch once
  the call has returned.
\<close>

definition request_file :: "flags \<Rightarrow> loop_state \<Rightarrow> loop_state" where
  "request_file fl st =
     st\<lparr>events := events st @ [LogInfo ''Extracting from source JSON file.'',
                                 CallStreamFile (flag_json fl)]\<rparr>"

definition read_file :: "flags \<Rightarrow> loop_state \<Rightarrow> response \<Rightarrow> loop_state + event list" where
  "read_file fl st r =
     (let st1 = request_file fl st;
          st2 = st1\<lparr>users := rsp_users r\<rparr>
      in if rsp_err r \<noteq> None
         then Inr (events st2 @ [LogError ''Can't decode json file.''])
         else Inl (st2\<lparr>stop := True\<rparr>))"

text \<open>
  How a run of \<open>main\<close> ends; \<open>Waiting\<close>: the run has made a call of \<open>StreamHTTP\<close> or
  \<open>StreamFile\<close> whose result has not arrived.
\<close>

datatype outcome = Exit int | Panic | Return | Waiting

text \<open>
  \<open>DumpJson\<close> and \<open>DumpMarkdown\<close> (src/main.go, lines 198-258) panic when the file cannot be
  created or written. \<open>DumpJson\<close> writes the document that stands for the Result List.
\<close>

definition DumpJson :: "world \<Rightarrow> string \<Rightarrow> Ranks \<Rightarrow> event list option" where
  "DumpJson w path rs = (if Writable w path then Some [CallDumpJson path (Marshal_Ranks rs)] else None)"

definition DumpMarkdown :: "world \<Rightarrow> string \<Rightarrow> Ranks \<Rightarrow> event list option" where
  "DumpMarkdown w path rs = (if Writable w path then Some [CallDumpMarkdown path rs] else None)"

text \<open>
  What \<open>DumpMarkdown\<close> of src/main.go writes after "Area" in the header of the document
  (lines 229-235): the default value of the flag \<open>location\<close> is labelled world-wide.
\<close>

definition fmtLocation :: "string \<Rightarrow> string" where
  "fmtLocation location =
     (if location = ''.'' then '': WorldWide'' else '' *pattern*: '' @ location)"


subsection \<open>\<open>main\<close> of src/unnamed/part\_000\<close>

text \<open>
  Lines 70-81: the key and the fetch. \<open>key\<close> is declared before the loop and keeps its
  value between passes; \<open>users = new(lib.SOUsers)\<close> is filled by \<open>lib.StreamHTTP\<close>.
  \<open>request_part_000\<close> is the pass up to the call of \<open>lib.StreamHTTP\<close>, \<open>fetch_part_000\<close> the
  pass once the call has returned.
\<close>

definition request_part_000 :: "string \<Rightarrow> loop_state \<Rightarrow> loop_state" where
  "request_part_000 getkey st =
     (let st1 = (if lastPage st = currentPage st
                 then st\<lparr>key := ''&key='' @ getkey,
                         events := events st @ [LogInfo ''Trying to extract API key.'', CallGetKey]\<rparr>
                 else st)
      in st1\<lparr>users := Some new_SOUsers,
              events := events st1 @ [CallStreamHTTP (currentPage st1) (key st1)]\<rparr>)"

definition fetch_part_000 :: "string \<Rightarrow> loop_state \<Rightarrow> response \<Rightarrow> loop_state" where
  "fetch_part_000 getkey st r =
     (let st2 = request_part_000 getkey st
      in case rsp_users r of None \<Rightarrow> st2 | Some u \<Rightarrow> st2\<lparr>users := Some u\<rparr>)"

text \<open>Lines 68-118. Line 83 reads \<open>users.Items\<close> before the error is looked at.\<close>

definition body_part_000 :: "flags \<Rightarrow> (string \<Rightarrow> bool) \<Rightarrow> string \<Rightarrow> loop_state \<Rightarrow> response \<Rightarrow> step" where
  "body_part_000 fl re getkey st r =
     (if flag_json fl = '''' then
        (let st2 = fetch_part_000 getkey st r
         in case users st2 of
              None \<Rightarrow> Panicked (events st2)
            | Some u \<Rightarrow>
                if rsp_err r \<noteq> None \<or> length (Items u) = 0 then stream_failed st2
                else filter_and_advance MinReputation_part_000 MaxPages_part_000 fl re st2)
      else
        (case read_file fl st r of
           Inr ev \<Rightarrow> OsExit 5 ev
         | Inl st1 \<Rightarrow> filter_and_advance MinReputation_part_000 MaxPages_part_000 fl re st1))"

text \<open>Lines 120-137.\<close>

definition finish_part_000 :: "flags \<Rightarrow> world \<Rightarrow> loop_state \<Rightarrow> outcome \<times> event list" where
  "finish_part_000 fl w st =
     (if counter st = 0 then (Exit 0, events st @ [LogWarning ''No results found.''])
      else
        (case (if flag_jsonrsp fl \<noteq> '''' then DumpJson w (flag_jsonrsp fl) (ranks st) else Some []) of
           None \<Rightarrow> (Panic, events st)
         | Some ev1 \<Rightarrow>
             (case (if flag_mdrsp fl \<noteq> '''' then DumpMarkdown w (flag_mdrsp fl) (ranks st) else Some []) of
                None \<Rightarrow> (Panic, events st @ ev1)
              | Some ev2 \<Rightarrow>
                  (let ev3 = (if flag_mdrsp fl \<noteq> '''' \<and> flag_publish fl \<noteq> ''''
                              then [CallGitHubConnector (flag_publish fl) (flag_mdrsp fl)] else [])
                   in (Return, events st @ ev1 @ ev2 @ ev3 @
                         [LogPagesRequested (lastPage st), LogUsersFound (counter st)])))))"

text \<open>Lines 37-138.\<close>

definition main_part_000 :: "flags \<Rightarrow> world \<Rightarrow> outcome \<times> event list" where
  "main_part_000 fl w =
     (if flag_publish fl \<noteq> '''' \<and> flag_mdrsp fl = '''' then (Exit 5, [LogError ''Publish requires mdrsp!!''])
      else
        (case Compile w (''(?i)'' @ flag_location fl) of
           None \<Rightarrow> (Panic, [])
         | Some re \<Rightarrow>
             (case for_loop (body_part_000 fl re (GetKey w)) initial_state (Stream w) of
                Continue st \<Rightarrow>
                  (Waiting, events (if flag_json fl = '''' then request_part_000 (GetKey w) st
                                    else request_file fl st))
              | Break st \<Rightarrow> finish_part_000 fl w st
              | OsExit code ev \<Rightarrow> (Exit code, ev)
              | Panicked ev \<Rightarrow> (Panic, ev))))"

subsection \<open>\<open>main\<close> of src/main.go\<close>

text \<open>
  Lines 302-310: the key and the fetch. \<open>key\<close> is declared inside the loop, so it is
  empty on every pass that does not call \<open>GetKey\<close>. \<open>users, err := StreamHTTP(currentPage, key)\<close>
  declares a new \<open>users\<close> in the branch: the outer \<open>users\<close>, which \<open>GetUserInfo\<close>
  receives, is not assigned. \<open>request_main_go\<close> is the pass up to the call of
  \<open>StreamHTTP\<close>; the result of the call goes to the inner \<open>users\<close> and \<open>err\<close>, so the pass
  once the call has returned, \<open>fetch_main_go\<close>, has the same variables.
\<close>

definition request_main_go :: "string \<Rightarrow> loop_state \<Rightarrow> loop_state" where
  "request_main_go getkey st =
     (let st1 = (if lastPage st = currentPage st
                 then st\<lparr>key := getkey,
                         events := events st @ [LogInfo ''Trying to extract API key.'', CallGetKey]\<rparr>
                 else st\<lparr>key := ''''\<rparr>)
      in st1\<lparr>events := events st1 @ [CallStreamHTTP (currentPage st1) (key st1)]\<rparr>)"

definition fetch_main_go :: "string \<Rightarrow> loop_state \<Rightarrow> response \<Rightarrow> loop_state" where
  "fetch_main_go getkey st r = request_main_go getkey st"

text \<open>Lines 300-342. \<open>||\<close> reads \<open>users.Items\<close> of the inner \<open>users\<close> only when \<open>err\<close> is nil.\<close>

definition body_main_go :: "flags \<Rightarrow> (string \<Rightarrow> bool) \<Rightarrow> string \<Rightarrow> loop_state \<Rightarrow> response \<Rightarrow> step" where
  "body_main_go fl re getkey st r =
     (if flag_json fl = '''' then
        (let st2 = fetch_main_go getkey st r
         in if rsp_err r \<noteq> None then stream_failed st2
            else (case rsp_users r of
                    None \<Rightarrow> Panicked (events st2)
                  | Some u \<Rightarrow>
                      if length (Items u) = 0 then stream_failed st2
                      else filter_and_advance MinReputation_main_go MaxPages_main_go fl re st2))
      else
        (case read_file fl st r of
           Inr ev \<Rightarrow> OsExit 5 ev
         | Inl st1 \<Rightarrow> filter_and_advance MinReputation_main_go MaxPages_main_go fl re st1))"

text \<open>Lines 344-357.\<close>

definition finish_main_go :: "flags \<Rightarrow> world \<Rightarrow> loop_state \<Rightarrow> outcome \<times> event list" where
  "finish_main_go fl w st =
     (if counter st = 0 then (Exit 0, events st @ [LogWarning ''No results found.''])
      else
        (case (if flag_mdrsp fl \<noteq> '''' then DumpMarkdown w (flag_mdrsp fl) (ranks st) else Some []) of
           None \<Rightarrow> (Panic, events st)
         | Some ev1 \<Rightarrow>
             (case (if flag_jsonrsp fl \<noteq> '''' then DumpJson w (flag_jsonrsp fl) (ranks st) else Some []) of
                None \<Rightarrow> (Panic, events st @ ev1)
              | Some ev2 \<Rightarrow>
                  (Return, events st @ ev1 @ ev2 @
                     [LogPagesRequested (lastPage st), LogUsersFound (counter st)]))))"

text \<open>Lines 277-358.\<close>

definition main_go :: "flags \<Rightarrow> world \<Rightarrow> outcome \<times> event list" where
  "main_go fl w =
     (case Compile w (''(?i)'' @ flag_location fl) of
        None \<Rightarrow> (Panic, [])
      | Some re \<Rightarrow>
          (case for_loop (body_main_go fl re (GetKey w)) initial_state (Stream w) of
             Continue st \<Rightarrow>
               (Waiting, events (if flag_json fl = '''' then request_main_go (GetKey w) st
                                 else request_file fl st))
           | Break st \<Rightarrow> finish_main_go fl w st
           | OsExit code ev \<Rightarrow> (Exit code, ev)
           | Panicked ev \<Rightarrow> (Panic, ev)))"

section \<open>Notions used in the statements\<close>

text \<open>
  The records of a page that qualify: those at or above the minimum reputation that come
  before the first record below it, and whose location matches.
\<close>

definition qualifying :: "int \<Rightarrow> (string \<Rightarrow> bool) \<Rightarrow> SOUser list \<Rightarrow> SOUser list" where
  "qualifying MinReputation location xs =
     filter (\<lambda>u. location (uLocation u)) (takeWhile (\<lambda>u. MinReputation \<le> uReputation u) xs)"

text \<open>The rank entries of the records \<open>us\<close>, numbered from \<open>c + 1\<close> on.\<close>

fun numbered :: "int \<Rightarrow> SOUser list \<Rightarrow> Ranks" where
  "numbered c [] = []"
| "numbered c (u # us) = rank_entry (c + 1) u # numbered (c + 1) us"

text \<open>The result of the filter without the lines it logged.\<close>

definition quiet :: "bool \<times> filter_state \<Rightarrow> bool \<times> int \<times> Ranks" where
  "quiet res = (case res of (rep, c, rs, out) \<Rightarrow> (rep, c, rs))"

definition silent :: "(bool \<times> filter_state) option \<Rightarrow> (bool \<times> int \<times> Ranks) option" where
  "silent res = map_option quiet res"

text \<open>
  A fetch that the drivers count as failed: an error, or a page with zero items (a page
  pointer that was never filled holds zero items).
\<close>

definition fetch_failed :: "response \<Rightarrow> bool" where
  "fetch_failed r = (rsp_err r \<noteq> None \<or> (case rsp_users r of None \<Rightarrow> True | Some u \<Rightarrow> Items u = []))"

text \<open>\<open>StreamHTTP\<close> of src/main.go returns a nil page only together with an error.\<close>

definition well_formed :: "response \<Rightarrow> bool" where
  "well_formed r = (rsp_err r \<noteq> None \<or> rsp_users r \<noteq> None)"

text \<open>Readings of a list of actions: the pages requested, in order.\<close>

fun fetched_pages :: "event list \<Rightarrow> int list" where
  "fetched_pages [] = []"
| "fetched_pages (CallStreamHTTP p k # ev) = p # fetched_pages ev"
| "fetched_pages (e # ev) = fetched_pages ev"

text \<open>The number of calls of \<open>GetKey\<close>.\<close>

fun GetKey_calls :: "event list \<Rightarrow> nat" where
  "GetKey_calls [] = 0"
| "GetKey_calls (CallGetKey # ev) = Suc (GetKey_calls ev)"
| "GetKey_calls (e # ev) = GetKey_calls ev"

text \<open>
  The fetch attempts, each with its page number and whether \<open>GetKey\<close> was called since
  the attempt before it (\<open>k\<close>: whether it was called before the first action of the list).
\<close>

fun attempts :: "bool \<Rightarrow> event list \<Rightarrow> (int \<times> bool) list" where
  "attempts k [] = []"
| "attempts k (CallGetKey # ev) = attempts True ev"
| "attempts k (CallStreamHTTP p ky # ev) = (p, k) # attempts False ev"
| "attempts k (e # ev) = attempts k ev"

text \<open>Whether \<open>GetKey\<close> was called after the last fetch attempt of the list.\<close>

fun key_pending :: "bool \<Rightarrow> event list \<Rightarrow> bool" where
  "key_pending k [] = k"
| "key_pending k (CallGetKey # ev) = key_pending True ev"
| "key_pending k (CallStreamHTTP p ky # ev) = key_pending False ev"
| "key_pending k (e # ev) = key_pending k ev"

text \<open>The actions that write an output file.\<close>

fun writes_output :: "event \<Rightarrow> bool" where
  "writes_output (CallDumpJson path rs) = True"
| "writes_output (CallDumpMarkdown path rs) = True"
| "writes_output e = False"

text \<open>The actions of the key step of a pass: \<open>GetKey\<close> is called when \<open>lastPage == currentPage\<close>.\<close>

definition key_events :: "loop_state \<Rightarrow> event list" where
  "key_events st =
     (if lastPage st = currentPage st then [LogInfo ''Trying to extract API key.'', CallGetKey] else [])"

text \<open>The actions of a run up to a step.\<close>

fun step_events :: "step \<Rightarrow> event list" where
  "step_events (Continue st) = events st"
| "step_events (Break st) = events st"
| "step_events (OsExit code ev) = ev"
| "step_events (Panicked ev) = ev"

text \<open>The actions that are log lines.\<close>

fun is_log :: "event \<Rightarrow> bool" where
  "is_log (LogInfo s) = True"
| "is_log (LogWarning s) = True"
| "is_log (LogError s) = True"
| "is_log (LogUser l) = True"
| "is_log (LogPagesRequested n) = True"
| "is_log (LogUsersFound n) = True"
| "is_log e = False"

text \<open>
  Modelled from the documentation of Go's package \<open>regexp\<close> (the package is not part of
  the repository): \<open>MatchString\<close> of the pattern \<open>(?i).\<close>, which the drivers compile from
  the default value \<open>.\<close> of the flag \<open>location\<close>. \<open>.\<close> matches any character except a
  newline (the flag \<open>s\<close> is off), \<open>(?i)\<close> changes the matching of letters only, and
  \<open>MatchString\<close> reports whether the string contains any match. A string is a sequence
  of bytes here; a byte that is not part of a valid UTF-8 sequence reads as U+FFFD,
  which \<open>.\<close> matches too, so the string contains a match exactly when one of its bytes
  is not the newline.
\<close>

definition MatchString_default :: "string \<Rightarrow> bool" where
  "MatchString_default s = list_ex (\<lambda>c. c \<noteq> CHR 0x0A) s"

text \<open>
  The order of key derivations and fetches that the drivers keep in HTTP mode: \<open>GetKey\<close>
  is called right before a fetch exactly when the fetch asks for page 1; so there are as
  many calls of \<open>GetKey\<close> as requests for page 1, at most three, and the first fetch
  asks for page 1 with a key derived before it.
\<close>

definition key_trace_ok :: "event list \<Rightarrow> bool" where
  "key_trace_ok ev =
     (list_all (\<lambda>(p, k). k = (p = 1)) (attempts False ev) \<and>
      GetKey_calls ev = length (filter (\<lambda>p. p = 1) (fetched_pages ev)) \<and>
      GetKey_calls ev \<le> 3 \<and>
      (attempts False ev = [] \<or> hd (attempts False ev) = (1, True)) \<and>
      \<not> key_pending False ev)"

text \<open>What the loop state adds to this at the loop head.\<close>

definition key_state_ok :: "loop_state \<Rightarrow> bool" where
  "key_state_ok st =
     (1 \<le> currentPage st \<and>
      (if lastPage st = currentPage st
       then currentPage st = 1 \<and> int (GetKey_calls (events st)) = streamErrors st
       else currentPage st \<noteq> 1 \<and> attempts False (events st) \<noteq> []) \<and>
      0 \<le> streamErrors st \<and> streamErrors st < MaxErrors)"

fun key_inv :: "step \<Rightarrow> bool" where
  "key_inv (Continue st) = (key_trace_ok (events st) \<and> key_state_ok st)"
| "key_inv (Break st) = key_trace_ok (events st)"
| "key_inv (OsExit code ev) = key_trace_ok ev"
| "key_inv (Panicked ev) = key_trace_ok ev"

text \<open>
  Two readings of where the loop stands, used below: \<open>GetKey\<close> has been called once and
  page 1 is done; and: \<open>GetKey\<close> has been called twice or more, or it has been called once
  and the next pass calls it again.
\<close>

fun key_once :: "step \<Rightarrow> bool" where
  "key_once (Continue st) = (GetKey_calls (events st) = 1 \<and> lastPage st \<noteq> currentPage st)"
| "key_once (Break st) = (GetKey_calls (events st) = 1)"
| "key_once (OsExit code ev) = (GetKey_calls ev = 1)"
| "key_once (Panicked ev) = (GetKey_calls ev = 1)"

fun key_again :: "step \<Rightarrow> bool" where
  "key_again (Continue st) =
     (2 \<le> GetKey_calls (events st) \<or> (GetKey_calls (events st) = 1 \<and> lastPage st = currentPage st))"
| "key_again (Break st) = (2 \<le> GetKey_calls (events st))"
| "key_again (OsExit code ev) = (2 \<le> GetKey_calls ev)"
| "key_again (Panicked ev) = (2 \<le> GetKey_calls ev)"

text \<open>
  The Result List and the counter of \<open>st'\<close> extend those of \<open>st\<close>: entries were appended,
  numbered from the counter on, and the counter was moved on by their number.
\<close>

definition extends :: "loop_state \<Rightarrow> loop_state \<Rightarrow> bool" where
  "extends st st' = (\<exists>acc. ranks st' = ranks st @ numbered (counter st) acc \<and>
                          counter st' = counter st + int (length acc))"

fun result_extends :: "loop_state \<Rightarrow> step \<Rightarrow> bool" where
  "result_extends st (Continue st') = extends st st'"
| "result_extends st (Break st') = extends st st'"
| "result_extends st x = True"

text \<open>
  The records of the pages that the fetches handed to the filter, in order: a failed or
  empty fetch hands over nothing.
\<close>

definition handed_over :: "response list \<Rightarrow> SOUser list" where
  "handed_over rsps =
     concat (map (\<lambda>r. if fetch_failed r then [] else (case rsp_users r of None \<Rightarrow> [] | Some u \<Rightarrow> Items u)) rsps)"

text \<open>
  A pass of the loop body filters the records that its fetch handed over: the call of
  \<open>G\<close> on them, from the counter and the Result List at the loop head, gives the counter
  and the Result List after the pass, and returned true if the loop goes on.
\<close>

fun filters :: "(SOUser list \<Rightarrow> filter_state \<Rightarrow> bool \<times> filter_state) \<Rightarrow> response \<Rightarrow> loop_state \<Rightarrow> step \<Rightarrow> bool" where
  "filters G r st (Continue st') = (quiet (G (handed_over [r]) (counter st, ranks st, [])) = (True, counter st', ranks st'))"
| "filters G r st (Break st') = (snd (quiet (G (handed_over [r]) (counter st, ranks st, []))) = (counter st', ranks st'))"
| "filters G r st x = True"

section \<open>Concrete inputs\<close>

text \<open>The zero value of a user record, and records that differ from it in a few fields.\<close>

definition user0 :: SOUser where
  "user0 = \<lparr>uAccountID = 0, uReputation = 0, uLocation = '''', uWebsiteURL = '''', uLink = '''',
     uProfileImage = '''', uDisplayName = ''''\<rparr>"

text \<open>A fetch that fails, and the fetch of a page.\<close>

definition failed_fetch :: response where
  "failed_fetch = \<lparr>rsp_users = None, rsp_err = Some ''timeout''\<rparr>"

definition page_of :: "SOUser list \<Rightarrow> bool \<Rightarrow> response" where
  "page_of us hm =
     \<lparr>rsp_users = Some \<lparr>Items = us, HasMore = hm, QuotaMax = 300, QuotaRemaining = 299\<rparr>, rsp_err = None\<rparr>"

definition user_of :: "int \<Rightarrow> string \<Rightarrow> SOUser" where
  "user_of rep loc = user0\<lparr>uReputation := rep, uLocation := loc\<rparr>"

text \<open>
  A world with the given fetch results, in which the key file holds \<open>K\<close>, every file
  can be written, and the compiler compiles the default pattern only.
\<close>

definition world_of :: "response list \<Rightarrow> world" where
  "world_of rs =
     \<lparr>Compile = (\<lambda>p. if p = ''(?i).'' then Some MatchString_default else None),
      GetKey = ''K'', Stream = rs, Writable = (\<lambda>path. True)\<rparr>"

section \<open>Properties of the Rank Filter\<close>

lemma quiet_simp [simp]: "quiet (rep, c, rs, out) = (rep, c, rs)"
  by (simp add: quiet_def)

lemma numbered_append: "numbered c (xs @ ys) = numbered c xs @ numbered (c + int (length xs)) ys"
  by (induction xs arbitrary: c) (simp_all add: add.assoc)

lemma length_numbered [simp]: "length (numbered c xs) = length xs"
  by (induction xs arbitrary: c) simp_all

lemma map_Rank_numbered: "map Rank (numbered c xs) = [c + 1 .. c + int (length xs)]"
proof (induction xs arbitrary: c)
  case Nil
  show ?case by simp
next
  case (Cons x xs)
  have "[c + 1 .. c + int (length (x # xs))] = (c + 1) # [c + 1 + 1 .. c + int (length (x # xs))]"
    by (subst upto_rec1) simp_all
  moreover have "c + int (length (x # xs)) = c + 1 + int (length xs)" by simp
  ultimately show ?case using Cons[of "c + 1"] by (simp add: rank_entry_def ac_simps)
qed

text \<open>Neither the flag \<open>term\<close> nor the lines logged so far change what the filter computes.\<close>

lemma range_quiet:
  "quiet (GetUserInfo_range m loc lim t xs (c, rs, out)) =
   quiet (GetUserInfo_range m loc lim t' xs (c, rs, out'))"
  by (induction xs arbitrary: c rs out out') (simp_all add: Let_def)

lemma range_not_term:
  "snd (snd (snd (GetUserInfo_range m loc lim False xs (c, rs, out)))) = out"
  by (induction xs arbitrary: c rs out) (simp_all add: Let_def)

text \<open>The filter stops at the first record under the minimum.\<close>

lemma range_first_below:
  "\<forall>x\<in>set pre. m \<le> uReputation x \<Longrightarrow> uReputation u < m \<Longrightarrow>
   GetUserInfo_range m loc lim t (pre @ u # post) st = (False, snd (GetUserInfo_range m loc lim t pre st))"
proof (induction pre arbitrary: st)
  case Nil
  then show ?case by (cases st) simp
next
  case (Cons x xs)
  then show ?case by (cases st) (simp add: Let_def)
qed

text \<open>What the filter computes, without a limit and below a limit.\<close>

lemma range_unlimited:
  "quiet (GetUserInfo_range m loc 0 t xs (c, rs, out)) =
     (list_all (\<lambda>u. m \<le> uReputation u) xs,
      c + int (length (qualifying m loc xs)),
      rs @ numbered c (qualifying m loc xs))"
  by (induction xs arbitrary: c rs out) (simp_all add: qualifying_def Let_def)

lemma range_limited:
  "0 < N \<Longrightarrow> c < N \<Longrightarrow>
   quiet (GetUserInfo_range m loc N t xs (c, rs, out)) =
     (list_all (\<lambda>u. m \<le> uReputation u) xs \<and> c + int (length (qualifying m loc xs)) < N,
      c + int (length (take (nat (N - c)) (qualifying m loc xs))),
      rs @ numbered c (take (nat (N - c)) (qualifying m loc xs)))"
proof (induction xs arbitrary: c rs out)
  case Nil
  then show ?case by (simp add: qualifying_def)
next
  case (Cons x xs)
  have nat_eq: "nat (N - c) = Suc (nat (N - (c + 1)))" using Cons.prems(2) by simp
  show ?case
  proof (cases "c + 1 < N")
    case True
    from Cons.IH[OF Cons.prems(1) True] Cons.IH[OF Cons.prems(1) Cons.prems(2)] True Cons.prems
    show ?thesis by (auto simp add: qualifying_def Let_def nat_eq ac_simps)
  next
    case False
    then have "N = c + 1" using Cons.prems(2) by simp
    with Cons.IH[OF Cons.prems(1) Cons.prems(2)] Cons.prems
    show ?thesis by (simp add: qualifying_def Let_def)
  qed
qed

text \<open>Whatever the limit and the counter: the filter appends entries numbered from the counter on.\<close>

lemma range_appends:
  "\<exists>acc. snd (quiet (GetUserInfo_range m loc lim t xs (c, rs, out))) =
            (c + int (length acc), rs @ numbered c acc)
          \<and> set acc \<subseteq> set xs"
proof (induction xs arbitrary: c rs out)
  case Nil
  show ?case by (rule exI[of _ "[]"]) simp
next
  case (Cons x xs)
  let ?out1 = "if c + 1 = 1 \<and> t then out @ [InfoUserData, InfoUserHeader] else out"
  let ?out2 = "if t then ?out1 @ [InfoUserRow (c + 1) (uDisplayName x) (uReputation x) (uLocation x)] else ?out1"
  show ?case
  proof (cases "uReputation x < m")
    case True
    show ?thesis by (rule exI[of _ "[]"]) (simp add: True)
  next
    case False
    note ge = this
    show ?thesis
    proof (cases "loc (uLocation x)")
      case False
      from Cons.IH[of c rs out] obtain acc where
        "snd (quiet (GetUserInfo_range m loc lim t xs (c, rs, out))) = (c + int (length acc), rs @ numbered c acc)"
        "set acc \<subseteq> set xs" by blast
      then show ?thesis using ge False by (intro exI[of _ acc]) auto
    next
      case True
      note match = this
      show ?thesis
      proof (cases "c + 1 \<ge> lim \<and> lim \<noteq> 0")
        case True
        show ?thesis by (rule exI[of _ "[x]"]) (use ge match True in \<open>simp add: Let_def\<close>)
      next
        case False
        from Cons.IH[of "c + 1" "rs @ [rank_entry (c + 1) x]" ?out2] obtain acc where
          acc: "snd (quiet (GetUserInfo_range m loc lim t xs (c + 1, rs @ [rank_entry (c + 1) x], ?out2))) =
             (c + 1 + int (length acc), (rs @ [rank_entry (c + 1) x]) @ numbered (c + 1) acc)"
          "set acc \<subseteq> set xs" by blast
        have "GetUserInfo_range m loc lim t (x # xs) (c, rs, out) =
              GetUserInfo_range m loc lim t xs (c + 1, rs @ [rank_entry (c + 1) x], ?out2)"
          using ge match False by (auto simp add: Let_def)
        with acc show ?thesis by (intro exI[of _ "x # acc"]) (auto simp add: ac_simps)
      qed
    qed
  qed
qed

text \<open>Every entry that the filter appends has a location that matches.\<close>

lemma range_locations:
  "list_all (\<lambda>e. loc (Location e)) rs \<Longrightarrow>
   list_all (\<lambda>e. loc (Location e)) (fst (snd (snd (GetUserInfo_range m loc lim t xs (c, rs, out)))))"
  by (induction xs arbitrary: c rs out) (simp_all add: Let_def rank_entry_def)

section \<open>Properties of the JSON Writer\<close>

lemma lower_tags [simp]:
  "map ascii_lower ''rank'' = ''rank''" "map ascii_lower ''account_id'' = ''account_id''"
  "map ascii_lower ''display_name'' = ''display_name''" "map ascii_lower ''reputation'' = ''reputation''"
  "map ascii_lower ''location'' = ''location''" "map ascii_lower ''website_url'' = ''website_url''"
  "map ascii_lower ''link'' = ''link''" "map ascii_lower ''profile_image'' = ''profile_image''"
  by (simp_all add: ascii_lower_def)



section \<open>Properties of the loop\<close>

lemma for_loop_append:
  "for_loop body st (xs @ ys) =
     (case for_loop body st xs of Continue s \<Rightarrow> for_loop body s ys | Break s \<Rightarrow> Break s
        | OsExit code ev \<Rightarrow> OsExit code ev | Panicked ev \<Rightarrow> Panicked ev)"
  by (induction xs arbitrary: st) (simp_all split: step.splits)

lemma for_loop_Continue_inv:
  assumes "for_loop body st rs = Continue st'" and "P st"
    and "\<And>s r s'. P s \<Longrightarrow> body s r = Continue s' \<Longrightarrow> P s'"
  shows "P st'"
  using assms(1,2)
proof (induction rs arbitrary: st)
  case Nil
  then show ?case by simp
next
  case (Cons r rs)
  then show ?case using assms(3) by (auto split: step.splits)
qed

lemma for_loop_stops:
  assumes "for_loop body st rs = res" and "\<And>s. res \<noteq> Continue s"
  shows "\<exists>pre r post s. rs = pre @ r # post \<and> for_loop body st pre = Continue s \<and> body s r = res"
  using assms(1)
proof (induction rs arbitrary: st)
  case Nil
  then show ?case using assms(2) by auto
next
  case (Cons r rs)
  show ?case
  proof (cases "body st r")
    case (Continue s1)
    with Cons.prems have "for_loop body s1 rs = res" by simp
    from Cons.IH[OF this] obtain pre r' post s where
      "rs = pre @ r' # post" "for_loop body s1 pre = Continue s" "body s r' = res" by blast
    then have "r # rs = (r # pre) @ r' # post \<and> for_loop body st (r # pre) = Continue s \<and> body s r' = res"
      using Continue by simp
    then show ?thesis by blast
  next
    case (Break s1)
    with Cons.prems have "r # rs = [] @ r # rs \<and> for_loop body st [] = Continue st \<and> body st r = res" by simp
    then show ?thesis by blast
  next
    case (OsExit c ev)
    with Cons.prems have "r # rs = [] @ r # rs \<and> for_loop body st [] = Continue st \<and> body st r = res" by simp
    then show ?thesis by blast
  next
    case (Panicked ev)
    with Cons.prems have "r # rs = [] @ r # rs \<and> for_loop body st [] = Continue st \<and> body st r = res" by simp
    then show ?thesis by blast
  qed
qed

lemma stream_failed_Continue:
  "stream_failed st = Continue st' \<Longrightarrow>
     st' = st\<lparr>events := events st @ [LogWarning ''Can't stream data.''], streamErrors := streamErrors st + 1\<rparr>
     \<and> streamErrors st + 1 < MaxErrors"
  by (auto simp add: stream_failed_def Let_def split: if_splits)

lemma stream_failed_cases:
  "stream_failed st =
     (if streamErrors st + 1 \<ge> MaxErrors
      then OsExit 5 (events st @ [LogWarning ''Can't stream data.'', LogError ''Max retry number reached''])
      else Continue (st\<lparr>events := events st @ [LogWarning ''Can't stream data.''], streamErrors := streamErrors st + 1\<rparr>))"
  by (simp add: stream_failed_def Let_def)

lemma filter_and_advance_None:
  "users st = None \<Longrightarrow> filter_and_advance m mp fl re st = Panicked (events st)"
  by (simp add: filter_and_advance_def GetUserInfo_def)

lemma filter_and_advance_Some:
  "users st = Some u \<Longrightarrow>
   GetUserInfo_range m re (flag_limit fl) (flag_term fl) (Items u) (counter st, ranks st, []) = (rep, c, rs, out) \<Longrightarrow>
   filter_and_advance m mp fl re st =
     (if \<not> rep then Break (st\<lparr>counter := c, ranks := rs, events := events st @ map LogUser out\<rparr>)
      else if (currentPage st + 1 \<ge> mp \<and> mp \<noteq> 0) \<or> \<not> HasMore u \<or> stop st
      then Break (st\<lparr>counter := c, ranks := rs, events := events st @ map LogUser out,
                     lastPage := currentPage st, currentPage := currentPage st + 1\<rparr>)
      else Continue (st\<lparr>counter := c, ranks := rs, events := events st @ map LogUser out,
                     lastPage := currentPage st, currentPage := currentPage st + 1\<rparr>))"
  by (auto simp add: filter_and_advance_def GetUserInfo_def Let_def)

text \<open>The fetch step changes the key, the page pointer and the actions only.\<close>

lemma fetch_part_000_fields [simp]:
  "streamErrors (fetch_part_000 k st r) = streamErrors st"
  "currentPage (fetch_part_000 k st r) = currentPage st"
  "lastPage (fetch_part_000 k st r) = lastPage st"
  "counter (fetch_part_000 k st r) = counter st"
  "ranks (fetch_part_000 k st r) = ranks st"
  "stop (fetch_part_000 k st r) = stop st"
  "users (fetch_part_000 k st r) = Some (case rsp_users r of None \<Rightarrow> new_SOUsers | Some u \<Rightarrow> u)"
  by (simp_all add: fetch_part_000_def request_part_000_def Let_def split: option.splits)

lemma fetch_main_go_fields [simp]:
  "streamErrors (fetch_main_go k st r) = streamErrors st"
  "currentPage (fetch_main_go k st r) = currentPage st"
  "lastPage (fetch_main_go k st r) = lastPage st"
  "counter (fetch_main_go k st r) = counter st"
  "ranks (fetch_main_go k st r) = ranks st"
  "stop (fetch_main_go k st r) = stop st"
  "users (fetch_main_go k st r) = users st"
  by (simp_all add: fetch_main_go_def request_main_go_def Let_def)

text \<open>The loop body in HTTP mode, by the kind of result the fetch gave.\<close>

lemma body_part_000_failed:
  "flag_json fl = [] \<Longrightarrow> fetch_failed r \<Longrightarrow>
   body_part_000 fl re k st r = stream_failed (fetch_part_000 k st r)"
  by (auto simp add: body_part_000_def fetch_failed_def new_SOUsers_def Let_def split: option.splits)

lemma body_part_000_fetched:
  "flag_json fl = [] \<Longrightarrow> \<not> fetch_failed r \<Longrightarrow>
   body_part_000 fl re k st r =
     filter_and_advance MinReputation_part_000 MaxPages_part_000 fl re (fetch_part_000 k st r)"
  by (auto simp add: body_part_000_def fetch_failed_def new_SOUsers_def Let_def split: option.splits)

lemma body_main_go_failed:
  "flag_json fl = [] \<Longrightarrow> fetch_failed r \<Longrightarrow> well_formed r \<Longrightarrow>
   body_main_go fl re k st r = stream_failed (fetch_main_go k st r)"
  by (auto simp add: body_main_go_def fetch_failed_def well_formed_def Let_def split: option.splits)

lemma body_main_go_ill_formed:
  "flag_json fl = [] \<Longrightarrow> \<not> well_formed r \<Longrightarrow>
   body_main_go fl re k st r = Panicked (events (fetch_main_go k st r))"
  by (auto simp add: body_main_go_def well_formed_def Let_def split: option.splits)

lemma body_main_go_fetched:
  "flag_json fl = [] \<Longrightarrow> \<not> fetch_failed r \<Longrightarrow>
   body_main_go fl re k st r =
     filter_and_advance MinReputation_main_go MaxPages_main_go fl re (fetch_main_go k st r)"
  by (auto simp add: body_main_go_def fetch_failed_def Let_def split: option.splits)

text \<open>In file mode the loop body never returns to the loop head.\<close>

lemma filter_and_advance_stop:
  "stop st \<Longrightarrow> filter_and_advance m mp fl re st \<noteq> Continue st'"
proof (cases "users st")
  case None
  then show ?thesis by (simp add: filter_and_advance_None)
next
  case (Some u)
  assume "stop st"
  obtain rep c rs out where
    "GetUserInfo_range m re (flag_limit fl) (flag_term fl) (Items u) (counter st, ranks st, []) = (rep, c, rs, out)"
    by (metis prod_cases4)
  from filter_and_advance_Some[OF Some this] \<open>stop st\<close> show ?thesis by simp
qed

lemma read_file_stop: "read_file fl st r = Inl st1 \<Longrightarrow> stop st1"
  by (auto simp add: read_file_def request_file_def Let_def split: if_splits)

lemma body_part_000_file:
  "flag_json fl \<noteq> [] \<Longrightarrow> body_part_000 fl re k st r \<noteq> Continue st'"
  by (auto simp add: body_part_000_def filter_and_advance_stop read_file_stop split: sum.splits)

lemma body_main_go_file:
  "flag_json fl \<noteq> [] \<Longrightarrow> body_main_go fl re k st r \<noteq> Continue st'"
  by (auto simp add: body_main_go_def filter_and_advance_stop read_file_stop split: sum.splits)

text \<open>Case analyses of one pass through the loop body.\<close>

lemma fetch_part_000_events:
  "\<exists>ky. events (fetch_part_000 k st r) = events st @ key_events st @ [CallStreamHTTP (currentPage st) ky]"
  by (simp add: fetch_part_000_def request_part_000_def key_events_def Let_def split: option.splits)

lemma fetch_main_go_events:
  "\<exists>ky. events (fetch_main_go k st r) = events st @ key_events st @ [CallStreamHTTP (currentPage st) ky]"
  by (simp add: fetch_main_go_def request_main_go_def key_events_def Let_def)

lemma stream_failed_exit:
  "MaxErrors \<le> streamErrors st + 1 \<Longrightarrow>
   stream_failed st = OsExit 5 (events st @ [LogWarning ''Can't stream data.'', LogError ''Max retry number reached''])"
  by (simp add: stream_failed_cases)

lemma stream_failed_retry:
  assumes "streamErrors st + 1 < MaxErrors"
  obtains st' where "stream_failed st = Continue st'"
    "events st' = events st @ [LogWarning ''Can't stream data.'']"
    "streamErrors st' = streamErrors st + 1" "currentPage st' = currentPage st" "lastPage st' = lastPage st"
    "counter st' = counter st" "ranks st' = ranks st" "stop st' = stop st" "users st' = users st"
  using assms by (simp add: stream_failed_cases)

lemma filter_and_advance_cases:
  obtains (panic) "users st = None" "filter_and_advance m mp fl re st = Panicked (events st)"
  | (stop) u rep out st' where "users st = Some u" "filter_and_advance m mp fl re st = Break st'"
      "GetUserInfo_range m re (flag_limit fl) (flag_term fl) (Items u) (counter st, ranks st, []) =
         (rep, counter st', ranks st', out)"
      "events st' = events st @ map LogUser out" "streamErrors st' = streamErrors st"
      "rep \<longrightarrow> lastPage st' = currentPage st \<and> currentPage st' = currentPage st + 1
               \<and> ((mp \<le> currentPage st + 1 \<and> mp \<noteq> 0) \<or> \<not> HasMore u \<or> stop st)"
      "\<not> rep \<longrightarrow> lastPage st' = lastPage st \<and> currentPage st' = currentPage st"
  | (advance) u out st' where "users st = Some u" "filter_and_advance m mp fl re st = Continue st'"
      "GetUserInfo_range m re (flag_limit fl) (flag_term fl) (Items u) (counter st, ranks st, []) =
         (True, counter st', ranks st', out)"
      "events st' = events st @ map LogUser out" "streamErrors st' = streamErrors st"
      "lastPage st' = currentPage st" "currentPage st' = currentPage st + 1"
      "\<not> (mp \<le> currentPage st + 1 \<and> mp \<noteq> 0)" "HasMore u" "\<not> stop st" "stop st' = stop st"
      "users st' = users st"
proof (cases "users st")
  case None
  then show ?thesis using panic by (simp add: filter_and_advance_None)
next
  case (Some u)
  obtain rep c rs out where
    g: "GetUserInfo_range m re (flag_limit fl) (flag_term fl) (Items u) (counter st, ranks st, []) = (rep, c, rs, out)"
    by (metis prod_cases4)
  note eq = filter_and_advance_Some[OF Some g, of mp]
  show ?thesis
  proof (cases "\<not> rep")
    case True
    show ?thesis
      by (rule stop[of u "st\<lparr>counter := c, ranks := rs, events := events st @ map LogUser out\<rparr>" rep out])
         (use Some g eq True in simp_all)
  next
    case False
    note rep = this
    show ?thesis
    proof (cases "(currentPage st + 1 \<ge> mp \<and> mp \<noteq> 0) \<or> \<not> HasMore u \<or> stop st")
      case True
      show ?thesis
        by (rule stop[of u "st\<lparr>counter := c, ranks := rs, events := events st @ map LogUser out,
                     lastPage := currentPage st, currentPage := currentPage st + 1\<rparr>" rep out])
           (use Some g eq True rep in auto)
    next
      case False
      show ?thesis
        by (rule advance[of u "st\<lparr>counter := c, ranks := rs, events := events st @ map LogUser out,
                     lastPage := currentPage st, currentPage := currentPage st + 1\<rparr>" out])
           (use Some g eq False rep in auto)
    qed
  qed
qed

lemma body_part_000_http_cases:
  assumes "flag_json fl = []"
  obtains
    (exit) ky where "fetch_failed r" "MaxErrors \<le> streamErrors st + 1"
      "body_part_000 fl re k st r =
         OsExit 5 (events st @ key_events st @
           [CallStreamHTTP (currentPage st) ky, LogWarning ''Can't stream data.'', LogError ''Max retry number reached''])"
  | (retry) ky st' where "fetch_failed r" "streamErrors st + 1 < MaxErrors"
      "body_part_000 fl re k st r = Continue st'"
      "events st' = events st @ key_events st @ [CallStreamHTTP (currentPage st) ky, LogWarning ''Can't stream data.'']"
      "streamErrors st' = streamErrors st + 1" "currentPage st' = currentPage st" "lastPage st' = lastPage st"
      "counter st' = counter st" "ranks st' = ranks st" "stop st' = stop st"
  | (stop) ky u rep out st' where "\<not> fetch_failed r" "rsp_users r = Some u"
      "body_part_000 fl re k st r = Break st'"
      "GetUserInfo_range MinReputation_part_000 re (flag_limit fl) (flag_term fl) (Items u) (counter st, ranks st, []) =
         (rep, counter st', ranks st', out)"
      "events st' = events st @ key_events st @ [CallStreamHTTP (currentPage st) ky] @ map LogUser out"
      "streamErrors st' = streamErrors st"
      "rep \<longrightarrow> lastPage st' = currentPage st \<and> currentPage st' = currentPage st + 1
               \<and> ((MaxPages_part_000 \<le> currentPage st + 1 \<and> MaxPages_part_000 \<noteq> 0) \<or> \<not> HasMore u \<or> stop st)"
      "\<not> rep \<longrightarrow> lastPage st' = lastPage st \<and> currentPage st' = currentPage st"
  | (advance) ky u out st' where "\<not> fetch_failed r" "rsp_users r = Some u"
      "body_part_000 fl re k st r = Continue st'"
      "GetUserInfo_range MinReputation_part_000 re (flag_limit fl) (flag_term fl) (Items u) (counter st, ranks st, []) =
         (True, counter st', ranks st', out)"
      "events st' = events st @ key_events st @ [CallStreamHTTP (currentPage st) ky] @ map LogUser out"
      "streamErrors st' = streamErrors st"
      "lastPage st' = currentPage st" "currentPage st' = currentPage st + 1"
      "\<not> (MaxPages_part_000 \<le> currentPage st + 1 \<and> MaxPages_part_000 \<noteq> 0)" "HasMore u" "stop st' = stop st"
proof -
  obtain ky where ev: "events (fetch_part_000 k st r) = events st @ key_events st @ [CallStreamHTTP (currentPage st) ky]"
    using fetch_part_000_events by blast
  show ?thesis
  proof (cases "fetch_failed r")
    case True
    note b = body_part_000_failed[OF assms True, of re k st]
    show ?thesis
    proof (cases "MaxErrors \<le> streamErrors st + 1")
      case True
      show ?thesis
        by (rule exit[where ky = ky]) (use \<open>fetch_failed r\<close> True b ev stream_failed_exit[of "fetch_part_000 k st r"] in simp_all)
    next
      case False
      then have "streamErrors (fetch_part_000 k st r) + 1 < MaxErrors" by simp
      from stream_failed_retry[OF this] obtain st' where
        "stream_failed (fetch_part_000 k st r) = Continue st'"
        "events st' = events (fetch_part_000 k st r) @ [LogWarning ''Can't stream data.'']"
        "streamErrors st' = streamErrors (fetch_part_000 k st r) + 1"
        "currentPage st' = currentPage (fetch_part_000 k st r)" "lastPage st' = lastPage (fetch_part_000 k st r)"
        "counter st' = counter (fetch_part_000 k st r)" "ranks st' = ranks (fetch_part_000 k st r)"
        "stop st' = stop (fetch_part_000 k st r)" by metis
      then show ?thesis using retry[where ky = ky and st' = st'] \<open>fetch_failed r\<close> False b ev by simp
    qed
  next
    case False
    note b = body_part_000_fetched[OF assms False, of re k st]
    from False obtain u0 where u0: "rsp_users r = Some u0"
      by (auto simp add: fetch_failed_def split: option.splits)
    show ?thesis
    proof (cases rule: filter_and_advance_cases[of "fetch_part_000 k st r" MinReputation_part_000 MaxPages_part_000 fl re])
      case panic
      then show ?thesis by simp
    next
      case (stop u rep out st')
      then show ?thesis using that(3)[where ky = ky and u = u0 and rep = rep and out = out and st' = st'] False b ev u0 by simp
    next
      case (advance u out st')
      then show ?thesis using that(4)[where ky = ky and u = u0 and out = out and st' = st'] False b ev u0 by simp
    qed
  qed
qed

lemma body_main_go_http_cases:
  assumes "flag_json fl = []"
  obtains
    (exit) ky where "fetch_failed r" "MaxErrors \<le> streamErrors st + 1"
      "body_main_go fl re k st r =
         OsExit 5 (events st @ key_events st @
           [CallStreamHTTP (currentPage st) ky, LogWarning ''Can't stream data.'', LogError ''Max retry number reached''])"
  | (retry) ky st' where "fetch_failed r" "streamErrors st + 1 < MaxErrors"
      "body_main_go fl re k st r = Continue st'"
      "events st' = events st @ key_events st @ [CallStreamHTTP (currentPage st) ky, LogWarning ''Can't stream data.'']"
      "streamErrors st' = streamErrors st + 1" "currentPage st' = currentPage st" "lastPage st' = lastPage st"
      "counter st' = counter st" "ranks st' = ranks st" "stop st' = stop st" "users st' = users st"
  | (panic) ky where "\<not> well_formed r \<or> (\<not> fetch_failed r \<and> users st = None)"
      "body_main_go fl re k st r = Panicked (events st @ key_events st @ [CallStreamHTTP (currentPage st) ky])"
  | (stop) ky u rep out st' where "\<not> fetch_failed r" "users st = Some u"
      "body_main_go fl re k st r = Break st'"
      "GetUserInfo_range MinReputation_main_go re (flag_limit fl) (flag_term fl) (Items u) (counter st, ranks st, []) =
         (rep, counter st', ranks st', out)"
      "events st' = events st @ key_events st @ [CallStreamHTTP (currentPage st) ky] @ map LogUser out"
      "streamErrors st' = streamErrors st"
      "rep \<longrightarrow> lastPage st' = currentPage st \<and> currentPage st' = currentPage st + 1
               \<and> ((MaxPages_main_go \<le> currentPage st + 1 \<and> MaxPages_main_go \<noteq> 0) \<or> \<not> HasMore u \<or> stop st)"
      "\<not> rep \<longrightarrow> lastPage st' = lastPage st \<and> currentPage st' = currentPage st"
  | (advance) ky u out st' where "\<not> fetch_failed r" "users st = Some u"
      "body_main_go fl re k st r = Continue st'"
      "GetUserInfo_range MinReputation_main_go re (flag_limit fl) (flag_term fl) (Items u) (counter st, ranks st, []) =
         (True, counter st', ranks st', out)"
      "events st' = events st @ key_events st @ [CallStreamHTTP (currentPage st) ky] @ map LogUser out"
      "streamErrors st' = streamErrors st"
      "lastPage st' = currentPage st" "currentPage st' = currentPage st + 1"
      "\<not> (MaxPages_main_go \<le> currentPage st + 1 \<and> MaxPages_main_go \<noteq> 0)" "HasMore u" "stop st' = stop st"
      "users st' = users st"
proof -
  obtain ky where ev: "events (fetch_main_go k st r) = events st @ key_events st @ [CallStreamHTTP (currentPage st) ky]"
    using fetch_main_go_events by blast
  show ?thesis
  proof (cases "well_formed r")
    case False
    show ?thesis
      by (rule panic[where ky = ky]) (use False body_main_go_ill_formed[OF assms False, of re k st] ev in simp_all)
  next
    case True
    note wf = this
    show ?thesis
    proof (cases "fetch_failed r")
      case True
      note b = body_main_go_failed[OF assms True wf, of re k st]
      show ?thesis
      proof (cases "MaxErrors \<le> streamErrors st + 1")
        case True
        show ?thesis
          by (rule exit[where ky = ky])
             (use \<open>fetch_failed r\<close> True b ev stream_failed_exit[of "fetch_main_go k st r"] in simp_all)
      next
        case False
        then have "streamErrors (fetch_main_go k st r) + 1 < MaxErrors" by simp
        from stream_failed_retry[OF this] obtain st' where
          "stream_failed (fetch_main_go k st r) = Continue st'"
          "events st' = events (fetch_main_go k st r) @ [LogWarning ''Can't stream data.'']"
          "streamErrors st' = streamErrors (fetch_main_go k st r) + 1"
          "currentPage st' = currentPage (fetch_main_go k st r)" "lastPage st' = lastPage (fetch_main_go k st r)"
          "counter st' = counter (fetch_main_go k st r)" "ranks st' = ranks (fetch_main_go k st r)"
          "stop st' = stop (fetch_main_go k st r)" "users st' = users (fetch_main_go k st r)" by metis
        then show ?thesis using retry[where ky = ky and st' = st'] \<open>fetch_failed r\<close> False b ev by simp
      qed
    next
      case False
      note b = body_main_go_fetched[OF assms False, of re k st]
      show ?thesis
      proof (cases rule: filter_and_advance_cases[of "fetch_main_go k st r" MinReputation_main_go MaxPages_main_go fl re])
        case panic
        then show ?thesis using that(3)[where ky = ky] False b ev by simp
      next
        case (stop u rep out st')
        then show ?thesis using that(4)[where ky = ky and u = u and rep = rep and out = out and st' = st'] False b ev
          by simp
      next
        case (advance u out st')
        then show ?thesis using that(5)[where ky = ky and u = u and out = out and st' = st'] False b ev by simp
      qed
    qed
  qed
qed

lemma read_file_cases:
  obtains (err) "rsp_err r \<noteq> None"
    "read_file fl st r = Inr (events st @ [LogInfo ''Extracting from source JSON file.'', CallStreamFile (flag_json fl),
        LogError ''Can't decode json file.''])"
  | (ok) st1 where "rsp_err r = None" "read_file fl st r = Inl st1" "stop st1" "users st1 = rsp_users r"
      "events st1 = events st @ [LogInfo ''Extracting from source JSON file.'', CallStreamFile (flag_json fl)]"
      "counter st1 = counter st" "ranks st1 = ranks st" "streamErrors st1 = streamErrors st"
      "currentPage st1 = currentPage st" "lastPage st1 = lastPage st"
  by (cases "rsp_err r") (simp_all add: read_file_def request_file_def Let_def)

lemma file_mode_cases:
  assumes "flag_json fl \<noteq> []"
    and "body = (\<lambda>st r. case read_file fl st r of Inr ev \<Rightarrow> OsExit 5 ev
                          | Inl st1 \<Rightarrow> filter_and_advance m mp fl re st1)"
  obtains
    (exit) "rsp_err r \<noteq> None"
      "body st r = OsExit 5 (events st @ [LogInfo ''Extracting from source JSON file.'', CallStreamFile (flag_json fl),
        LogError ''Can't decode json file.''])"
  | (panic) "rsp_err r = None" "rsp_users r = None"
      "body st r = Panicked (events st @ [LogInfo ''Extracting from source JSON file.'', CallStreamFile (flag_json fl)])"
  | (stop) u rep out st' where "rsp_err r = None" "rsp_users r = Some u"
      "body st r = Break st'"
      "GetUserInfo_range m re (flag_limit fl) (flag_term fl) (Items u) (counter st, ranks st, []) =
         (rep, counter st', ranks st', out)"
      "events st' = events st @ [LogInfo ''Extracting from source JSON file.'', CallStreamFile (flag_json fl)]
           @ map LogUser out"
      "streamErrors st' = streamErrors st"
      "rep \<longrightarrow> lastPage st' = currentPage st \<and> currentPage st' = currentPage st + 1"
      "\<not> rep \<longrightarrow> lastPage st' = lastPage st \<and> currentPage st' = currentPage st"
proof (cases rule: read_file_cases[of r fl st])
  case err
  then show ?thesis using exit assms(2) by simp
next
  case (ok st1)
  show ?thesis
  proof (cases rule: filter_and_advance_cases[of st1 m mp fl re])
    case panic
    then show ?thesis using that(2) ok assms(2) by simp
  next
    case (stop u rep out st')
    then show ?thesis using that(3)[where u = u and rep = rep and out = out and st' = st'] ok assms(2) by simp
  next
    case (advance u out st')
    then show ?thesis using ok by simp
  qed
qed

lemma body_part_000_file_eq:
  "flag_json fl \<noteq> [] \<Longrightarrow>
   body_part_000 fl re k = (\<lambda>st r. case read_file fl st r of Inr ev \<Rightarrow> OsExit 5 ev
       | Inl st1 \<Rightarrow> filter_and_advance MinReputation_part_000 MaxPages_part_000 fl re st1)"
  by (intro ext) (simp add: body_part_000_def)

lemma body_main_go_file_eq:
  "flag_json fl \<noteq> [] \<Longrightarrow>
   body_main_go fl re k = (\<lambda>st r. case read_file fl st r of Inr ev \<Rightarrow> OsExit 5 ev
       | Inl st1 \<Rightarrow> filter_and_advance MinReputation_main_go MaxPages_main_go fl re st1)"
  by (intro ext) (simp add: body_main_go_def)

text \<open>Invariants of the loop, and the error counter.\<close>

lemma for_loop_step_inv:
  assumes "R (Continue st)" and "\<And>s r. R (Continue s) \<Longrightarrow> R (body s r)"
  shows "R (for_loop body st rs)"
  using assms(1)
proof (induction rs arbitrary: st)
  case Nil
  then show ?case by simp
next
  case (Cons r rs)
  from assms(2)[OF Cons.prems, of r] Cons.IH show ?case
    by (cases "body st r") simp_all
qed

lemma for_loop_count:
  assumes "for_loop body st rs = Continue st'"
    and "\<And>s r s'. body s r = Continue s' \<Longrightarrow> f s' = f s + (if g r then 1 else 0)"
  shows "f st' = f st + int (length (filter g rs))"
  using assms(1)
proof (induction rs arbitrary: st)
  case Nil
  then show ?case by simp
next
  case (Cons r rs)
  then obtain s1 where s1: "body st r = Continue s1" "for_loop body s1 rs = Continue st'"
    by (auto split: step.splits)
  from Cons.IH[OF s1(2)] assms(2)[OF s1(1)] show ?case by simp
qed

lemma errors_step_part_000:
  assumes "flag_json fl = []" "body_part_000 fl re k st r = Continue st'"
  shows "streamErrors st' = streamErrors st + (if fetch_failed r then 1 else 0)"
    and "streamErrors st < MaxErrors \<longrightarrow> streamErrors st' < MaxErrors"
  using assms(2) by (cases rule: body_part_000_http_cases[OF assms(1), of r st re k]; simp)+

lemma errors_step_main_go:
  assumes "flag_json fl = []" "body_main_go fl re k st r = Continue st'"
  shows "streamErrors st' = streamErrors st + (if fetch_failed r then 1 else 0)"
    and "streamErrors st < MaxErrors \<longrightarrow> streamErrors st' < MaxErrors"
  using assms(2) by (cases rule: body_main_go_http_cases[OF assms(1), of r st re k]; simp)+

lemma third_failure_part_000:
  assumes "flag_json fl = []" "fetch_failed r" "streamErrors st = 2"
  shows "\<exists>ev. body_part_000 fl re k st r = OsExit 5 ev"
  using assms(2,3) by (cases rule: body_part_000_http_cases[OF assms(1), of r st re k]; simp add: MaxErrors_def)

lemma third_failure_main_go:
  assumes "flag_json fl = []" "fetch_failed r" "well_formed r" "streamErrors st = 2"
  shows "\<exists>ev. body_main_go fl re k st r = OsExit 5 ev"
  using assms(2,3,4) by (cases rule: body_main_go_http_cases[OF assms(1), of r st re k]; simp add: MaxErrors_def)

text \<open>The pages requested and the output files written.\<close>

lemma fetched_pages_append: "fetched_pages (a @ b) = fetched_pages a @ fetched_pages b"
  by (induction a rule: fetched_pages.induct) simp_all

lemma fetched_pages_key_events [simp]: "fetched_pages (key_events st) = []"
  by (simp add: key_events_def)

lemma fetched_pages_logs: "list_all is_log xs \<Longrightarrow> fetched_pages xs = []"
  by (induction xs rule: fetched_pages.induct) simp_all

lemma writes_output_key_events [simp]: "filter writes_output (key_events st) = []"
  by (simp add: key_events_def)

lemma writes_output_logs [simp]: "filter writes_output (map LogUser out) = []"
  by (induction out) simp_all

text \<open>No pass through the loop writes an output file.\<close>

lemma no_output_part_000:
  "filter writes_output (step_events (body_part_000 fl re k st r)) = filter writes_output (events st)"
proof (cases "flag_json fl = []")
  case True
  show ?thesis by (cases rule: body_part_000_http_cases[OF True, of r st re k]; simp)
next
  case False
  show ?thesis
    by (cases rule: file_mode_cases[OF False body_part_000_file_eq[OF False, of re k], of r st]; simp)
qed

lemma no_output_main_go:
  "filter writes_output (step_events (body_main_go fl re k st r)) = filter writes_output (events st)"
proof (cases "flag_json fl = []")
  case True
  show ?thesis by (cases rule: body_main_go_http_cases[OF True, of r st re k]; simp)
next
  case False
  show ?thesis
    by (cases rule: file_mode_cases[OF False body_main_go_file_eq[OF False, of re k], of r st]; simp)
qed

lemma for_loop_no_output:
  assumes "\<And>s r. filter writes_output (step_events (body s r)) = filter writes_output (events s)"
  shows "filter writes_output (step_events (for_loop body st rs)) = filter writes_output (events st)"
proof (induction rs arbitrary: st)
  case Nil
  show ?case by simp
next
  case (Cons r rs)
  from assms[of st r] Cons.IH show ?case by (cases "body st r") simp_all
qed

lemma finish_part_000_not_5: "fst (finish_part_000 fl w st) \<noteq> Exit 5"
  by (simp add: finish_part_000_def Let_def split: option.splits)

lemma finish_main_go_not_5: "fst (finish_main_go fl w st) \<noteq> Exit 5"
  by (simp add: finish_main_go_def Let_def split: option.splits)

lemma main_part_000_run:
  assumes "\<not> (flag_publish fl \<noteq> [] \<and> flag_mdrsp fl = [])"
    and "Compile w (''(?i)'' @ flag_location fl) = Some re"
  shows "main_part_000 fl w =
     (case for_loop (body_part_000 fl re (GetKey w)) initial_state (Stream w) of
        Continue st \<Rightarrow>
          (Waiting, events (if flag_json fl = [] then request_part_000 (GetKey w) st else request_file fl st))
      | Break st \<Rightarrow> finish_part_000 fl w st
      | OsExit code ev \<Rightarrow> (Exit code, ev)
      | Panicked ev \<Rightarrow> (Panic, ev))"
  unfolding main_part_000_def using assms(2) by (subst if_not_P[OF assms(1)]) simp

lemma main_go_run:
  assumes "Compile w (''(?i)'' @ flag_location fl) = Some re"
  shows "main_go fl w =
     (case for_loop (body_main_go fl re (GetKey w)) initial_state (Stream w) of
        Continue st \<Rightarrow>
          (Waiting, events (if flag_json fl = [] then request_main_go (GetKey w) st else request_file fl st))
      | Break st \<Rightarrow> finish_main_go fl w st
      | OsExit code ev \<Rightarrow> (Exit code, ev)
      | Panicked ev \<Rightarrow> (Panic, ev))"
  using assms by (simp add: main_go_def)

lemma main_part_000_exit_5:
  assumes "fst (main_part_000 fl w) = Exit 5"
  shows "filter writes_output (snd (main_part_000 fl w)) = []"
proof (cases "flag_publish fl \<noteq> [] \<and> flag_mdrsp fl = []")
  case True
  then show ?thesis by (simp add: main_part_000_def)
next
  case False
  note np = this
  show ?thesis
  proof (cases "Compile w (''(?i)'' @ flag_location fl)")
    case None
    show ?thesis unfolding main_part_000_def using None by (subst if_not_P[OF np]) simp
  next
    case (Some re)
    note run = main_part_000_run[OF np Some]
    note no = for_loop_no_output[of "body_part_000 fl re (GetKey w)" initial_state "Stream w", OF no_output_part_000]
    show ?thesis
    proof (cases "for_loop (body_part_000 fl re (GetKey w)) initial_state (Stream w)")
      case (Continue s)
      with run assms show ?thesis by simp
    next
      case (Break s)
      with run assms finish_part_000_not_5[of fl w s] show ?thesis by simp
    next
      case (OsExit c ev)
      with run no show ?thesis by (simp add: initial_state_def)
    next
      case (Panicked ev)
      with run no show ?thesis by (simp add: initial_state_def)
    qed
  qed
qed

lemma main_go_exit_5:
  assumes "fst (main_go fl w) = Exit 5"
  shows "filter writes_output (snd (main_go fl w)) = []"
proof (cases "Compile w (''(?i)'' @ flag_location fl)")
  case None
  then show ?thesis by (simp add: main_go_def)
next
  case (Some re)
  note run = main_go_run[OF Some]
  note no = for_loop_no_output[of "body_main_go fl re (GetKey w)" initial_state "Stream w", OF no_output_main_go]
  show ?thesis
  proof (cases "for_loop (body_main_go fl re (GetKey w)) initial_state (Stream w)")
    case (Continue s)
    with run assms show ?thesis by simp
  next
    case (Break s)
    with run assms finish_main_go_not_5[of fl w s] show ?thesis by simp
  next
    case (OsExit c ev)
    with run no show ?thesis by (simp add: initial_state_def)
  next
    case (Panicked ev)
    with run no show ?thesis by (simp add: initial_state_def)
  qed
qed

lemma failed_pass_part_000:
  assumes "flag_json fl = []" "fetch_failed r"
  shows "streamErrors st + 1 < MaxErrors \<longrightarrow>
       (\<exists>st'. body_part_000 fl re k st r = Continue st' \<and> streamErrors st' = streamErrors st + 1 \<and>
              currentPage st' = currentPage st \<and> lastPage st' = lastPage st \<and>
              counter st' = counter st \<and> ranks st' = ranks st \<and>
              fetched_pages (events st') = fetched_pages (events st) @ [currentPage st])"
    and "MaxErrors \<le> streamErrors st + 1 \<longrightarrow>
       (\<exists>ev. body_part_000 fl re k st r = OsExit 5 ev \<and> filter writes_output ev = filter writes_output (events st))"
  using assms(2)
  by (cases rule: body_part_000_http_cases[OF assms(1), of r st re k]; simp add: fetched_pages_append)+

lemma failed_pass_main_go:
  assumes "flag_json fl = []" "fetch_failed r" "well_formed r"
  shows "streamErrors st + 1 < MaxErrors \<longrightarrow>
       (\<exists>st'. body_main_go fl re k st r = Continue st' \<and> streamErrors st' = streamErrors st + 1 \<and>
              currentPage st' = currentPage st \<and> lastPage st' = lastPage st \<and>
              counter st' = counter st \<and> ranks st' = ranks st \<and>
              fetched_pages (events st') = fetched_pages (events st) @ [currentPage st])"
    and "MaxErrors \<le> streamErrors st + 1 \<longrightarrow>
       (\<exists>ev. body_main_go fl re k st r = OsExit 5 ev \<and> filter writes_output ev = filter writes_output (events st))"
  using assms(2,3)
  by (cases rule: body_main_go_http_cases[OF assms(1), of r st re k]; simp add: fetched_pages_append)+

text \<open>Key derivations and fetches.\<close>

lemma key_pending_append: "key_pending k (a @ b) = key_pending (key_pending k a) b"
  by (induction k a rule: key_pending.induct) simp_all

lemma attempts_append: "attempts k (a @ b) = attempts k a @ attempts (key_pending k a) b"
  by (induction k a rule: attempts.induct) simp_all

lemma GetKey_calls_append: "GetKey_calls (a @ b) = GetKey_calls a + GetKey_calls b"
  by (induction a rule: GetKey_calls.induct) simp_all

lemma logs_LogUser [simp]:
  "attempts k (map LogUser out) = []" "key_pending k (map LogUser out) = k"
  "GetKey_calls (map LogUser out) = 0" "fetched_pages (map LogUser out) = []"
  by (induction out) simp_all

lemma key_events_readings [simp]:
  "attempts k (key_events st) = []"
  "key_pending k (key_events st) = (k \<or> lastPage st = currentPage st)"
  "GetKey_calls (key_events st) = (if lastPage st = currentPage st then 1 else 0)"
  by (simp_all add: key_events_def)

lemmas trace_append = key_pending_append attempts_append GetKey_calls_append fetched_pages_append

lemma key_inv_part_000:
  assumes "flag_json fl = []" "key_inv (Continue st)"
  shows "key_inv (body_part_000 fl re k st r)"
  using assms(2)
  by (cases rule: body_part_000_http_cases[OF assms(1), of r st re k];
      cases "attempts False (events st)";
      auto simp add: key_trace_ok_def key_state_ok_def trace_append MaxErrors_def split: if_splits)

lemma key_inv_main_go:
  assumes "flag_json fl = []" "key_inv (Continue st)"
  shows "key_inv (body_main_go fl re k st r)"
  using assms(2)
  by (cases rule: body_main_go_http_cases[OF assms(1), of r st re k];
      cases "attempts False (events st)";
      auto simp add: key_trace_ok_def key_state_ok_def trace_append MaxErrors_def split: if_splits)

lemma key_inv_initial: "key_inv (Continue initial_state)"
  by (simp add: initial_state_def key_trace_ok_def key_state_ok_def MaxErrors_def)

lemma key_trace_ok_step_events: "key_inv x \<Longrightarrow> key_trace_ok (step_events x)"
  by (cases x) simp_all

lemma key_trace_ok_finish_part_000:
  "key_trace_ok (events st) \<Longrightarrow> key_trace_ok (snd (finish_part_000 fl w st))"
  by (auto simp add: finish_part_000_def DumpJson_def DumpMarkdown_def key_trace_ok_def trace_append Let_def
      split: option.splits if_splits)

lemma key_trace_ok_finish_main_go:
  "key_trace_ok (events st) \<Longrightarrow> key_trace_ok (snd (finish_main_go fl w st))"
  by (auto simp add: finish_main_go_def DumpJson_def DumpMarkdown_def key_trace_ok_def trace_append Let_def
      split: option.splits if_splits)

lemma request_part_000_events:
  "\<exists>ky. events (request_part_000 k st) = events st @ key_events st @ [CallStreamHTTP (currentPage st) ky]"
  by (simp add: request_part_000_def key_events_def Let_def)

lemma request_main_go_events:
  "\<exists>ky. events (request_main_go k st) = events st @ key_events st @ [CallStreamHTTP (currentPage st) ky]"
  by (simp add: request_main_go_def key_events_def Let_def)

lemma key_trace_ok_request:
  assumes "key_inv (Continue st)"
  shows "key_trace_ok (events st @ key_events st @ [CallStreamHTTP (currentPage st) ky])"
  using assms
  by (cases "attempts False (events st)")
     (auto simp add: key_trace_ok_def key_state_ok_def trace_append MaxErrors_def split: if_splits)

lemma key_trace_ok_request_part_000:
  "key_inv (Continue st) \<Longrightarrow> key_trace_ok (events (request_part_000 k st))"
  using request_part_000_events[of k st] key_trace_ok_request[of st] by auto

lemma key_trace_ok_request_main_go:
  "key_inv (Continue st) \<Longrightarrow> key_trace_ok (events (request_main_go k st))"
  using request_main_go_events[of k st] key_trace_ok_request[of st] by auto

lemma key_trace_ok_main_part_000:
  assumes "flag_json fl = []"
  shows "key_trace_ok (snd (main_part_000 fl w))"
proof (cases "flag_publish fl \<noteq> [] \<and> flag_mdrsp fl = []")
  case True
  then show ?thesis by (simp add: main_part_000_def key_trace_ok_def)
next
  case False
  note np = this
  show ?thesis
  proof (cases "Compile w (''(?i)'' @ flag_location fl)")
    case None
    show ?thesis unfolding main_part_000_def using None
      by (subst if_not_P[OF np]) (simp add: key_trace_ok_def)
  next
    case (Some re)
    note run = main_part_000_run[OF np Some]
    have inv: "key_inv (for_loop (body_part_000 fl re (GetKey w)) initial_state (Stream w))"
      by (rule for_loop_step_inv[where R = key_inv, OF key_inv_initial]) (rule key_inv_part_000[OF assms])
    show ?thesis
    proof (cases "for_loop (body_part_000 fl re (GetKey w)) initial_state (Stream w)")
      case (Continue s)
      with run inv assms key_trace_ok_request_part_000[of s "GetKey w"] show ?thesis by simp
    next
      case (Break s)
      with run inv key_trace_ok_finish_part_000[of s fl w] show ?thesis by simp
    next
      case (OsExit c ev)
      with run inv show ?thesis by simp
    next
      case (Panicked ev)
      with run inv show ?thesis by simp
    qed
  qed
qed

lemma key_trace_ok_main_go:
  assumes "flag_json fl = []"
  shows "key_trace_ok (snd (main_go fl w))"
proof (cases "Compile w (''(?i)'' @ flag_location fl)")
  case None
  then show ?thesis by (simp add: main_go_def key_trace_ok_def)
next
  case (Some re)
  note run = main_go_run[OF Some]
  have inv: "key_inv (for_loop (body_main_go fl re (GetKey w)) initial_state (Stream w))"
    by (rule for_loop_step_inv[where R = key_inv, OF key_inv_initial]) (rule key_inv_main_go[OF assms])
  show ?thesis
  proof (cases "for_loop (body_main_go fl re (GetKey w)) initial_state (Stream w)")
    case (Continue s)
    with run inv assms key_trace_ok_request_main_go[of s "GetKey w"] show ?thesis by simp
  next
    case (Break s)
    with run inv key_trace_ok_finish_main_go[of s fl w] show ?thesis by simp
  next
    case (OsExit c ev)
    with run inv show ?thesis by simp
  next
    case (Panicked ev)
    with run inv show ?thesis by simp
  qed
qed

text \<open>When the key is derived once only.\<close>

lemma for_loop_first:
  assumes "R (body st r)" and "\<And>s r. R (Continue s) \<Longrightarrow> R (body s r)"
  shows "R (for_loop body st (r # rs))"
proof (cases "body st r")
  case (Continue s1)
  with assms(1) have "R (Continue s1)" by simp
  from for_loop_step_inv[where R = R, OF this assms(2)] Continue show ?thesis by simp
qed (use assms(1) in simp_all)

lemma GetKey_calls_finish_part_000:
  "GetKey_calls (snd (finish_part_000 fl w st)) = GetKey_calls (events st)"
  by (auto simp add: finish_part_000_def DumpJson_def DumpMarkdown_def trace_append Let_def
      split: option.splits if_splits)

lemma GetKey_calls_finish_main_go:
  "GetKey_calls (snd (finish_main_go fl w st)) = GetKey_calls (events st)"
  by (auto simp add: finish_main_go_def DumpJson_def DumpMarkdown_def trace_append Let_def
      split: option.splits if_splits)

lemma key_once_part_000:
  assumes "flag_json fl = []" "key_once (Continue st)"
  shows "key_once (body_part_000 fl re k st r)"
  using assms(2)
  by (cases rule: body_part_000_http_cases[OF assms(1), of r st re k])
     (auto simp add: trace_append)

lemma key_again_part_000:
  assumes "flag_json fl = []" "key_again (Continue st)"
  shows "key_again (body_part_000 fl re k st r)"
  using assms(2)
  by (cases rule: body_part_000_http_cases[OF assms(1), of r st re k])
     (auto simp add: trace_append)

lemma key_once_main_go:
  assumes "flag_json fl = []" "key_once (Continue st)"
  shows "key_once (body_main_go fl re k st r)"
  using assms(2)
  by (cases rule: body_main_go_http_cases[OF assms(1), of r st re k])
     (auto simp add: trace_append)

lemma key_again_main_go:
  assumes "flag_json fl = []" "key_again (Continue st)"
  shows "key_again (body_main_go fl re k st r)"
  using assms(2)
  by (cases rule: body_main_go_http_cases[OF assms(1), of r st re k])
     (auto simp add: trace_append)

lemma first_pass_part_000:
  assumes "flag_json fl = []"
  shows "\<not> fetch_failed r \<Longrightarrow> key_once (body_part_000 fl re k initial_state r)"
    and "fetch_failed r \<Longrightarrow> key_again (body_part_000 fl re k initial_state r)"
  by (cases rule: body_part_000_http_cases[OF assms, of r initial_state re k];
      simp add: trace_append initial_state_def MaxErrors_def)+

lemma first_pass_main_go:
  assumes "flag_json fl = []"
  shows "\<not> fetch_failed r \<Longrightarrow> key_once (body_main_go fl re k initial_state r)"
    and "fetch_failed r \<Longrightarrow> well_formed r \<Longrightarrow> key_again (body_main_go fl re k initial_state r)"
  by (cases rule: body_main_go_http_cases[OF assms, of r initial_state re k];
      simp add: trace_append initial_state_def MaxErrors_def)+

lemma GetKey_calls_request_part_000:
  "GetKey_calls (events (request_part_000 k st)) =
     GetKey_calls (events st) + (if lastPage st = currentPage st then 1 else 0)"
  by (simp add: request_part_000_def Let_def trace_append)

lemma GetKey_calls_request_main_go:
  "GetKey_calls (events (request_main_go k st)) =
     GetKey_calls (events st) + (if lastPage st = currentPage st then 1 else 0)"
  by (simp add: request_main_go_def Let_def trace_append)

lemma key_once_main_part_000:
  assumes "flag_json fl = []" "\<not> (flag_publish fl \<noteq> [] \<and> flag_mdrsp fl = [])"
    and "Compile w (''(?i)'' @ flag_location fl) = Some re"
    and "key_once (for_loop (body_part_000 fl re (GetKey w)) initial_state (Stream w))"
  shows "GetKey_calls (snd (main_part_000 fl w)) = 1"
  using assms(1,4) main_part_000_run[OF assms(2,3)]
  by (cases "for_loop (body_part_000 fl re (GetKey w)) initial_state (Stream w)")
     (simp_all add: GetKey_calls_request_part_000 GetKey_calls_finish_part_000)

lemma key_again_main_part_000:
  assumes "flag_json fl = []" "\<not> (flag_publish fl \<noteq> [] \<and> flag_mdrsp fl = [])"
    and "Compile w (''(?i)'' @ flag_location fl) = Some re"
    and "key_again (for_loop (body_part_000 fl re (GetKey w)) initial_state (Stream w))"
  shows "2 \<le> GetKey_calls (snd (main_part_000 fl w))"
  using assms(1,4) main_part_000_run[OF assms(2,3)]
  by (cases "for_loop (body_part_000 fl re (GetKey w)) initial_state (Stream w)")
     (auto simp add: GetKey_calls_request_part_000 GetKey_calls_finish_part_000)

lemma key_once_main_main_go:
  assumes "flag_json fl = []"
    and "Compile w (''(?i)'' @ flag_location fl) = Some re"
    and "key_once (for_loop (body_main_go fl re (GetKey w)) initial_state (Stream w))"
  shows "GetKey_calls (snd (main_go fl w)) = 1"
  using assms(1,3) main_go_run[OF assms(2)]
  by (cases "for_loop (body_main_go fl re (GetKey w)) initial_state (Stream w)")
     (simp_all add: GetKey_calls_request_main_go GetKey_calls_finish_main_go)

lemma key_again_main_main_go:
  assumes "flag_json fl = []"
    and "Compile w (''(?i)'' @ flag_location fl) = Some re"
    and "key_again (for_loop (body_main_go fl re (GetKey w)) initial_state (Stream w))"
  shows "2 \<le> GetKey_calls (snd (main_go fl w))"
  using assms(1,3) main_go_run[OF assms(2)]
  by (cases "for_loop (body_main_go fl re (GetKey w)) initial_state (Stream w)")
     (auto simp add: GetKey_calls_request_main_go GetKey_calls_finish_main_go)

lemma GetKey_once_part_000:
  assumes "flag_json fl = []" "\<not> (flag_publish fl \<noteq> [] \<and> flag_mdrsp fl = [])"
    and "Compile w (''(?i)'' @ flag_location fl) \<noteq> None"
  shows "Stream w = [] \<Longrightarrow> GetKey_calls (snd (main_part_000 fl w)) = 1"
    and "Stream w = r # rs \<Longrightarrow> (GetKey_calls (snd (main_part_000 fl w)) = 1 \<longleftrightarrow> \<not> fetch_failed r)"
proof -
  from assms(3) obtain re where re: "Compile w (''(?i)'' @ flag_location fl) = Some re" by blast
  show "GetKey_calls (snd (main_part_000 fl w)) = 1" if "Stream w = []"
    using that assms(1) main_part_000_run[OF assms(2) re]
    by (simp add: GetKey_calls_request_part_000 initial_state_def)
  show "GetKey_calls (snd (main_part_000 fl w)) = 1 \<longleftrightarrow> \<not> fetch_failed r" if s: "Stream w = r # rs"
  proof (cases "fetch_failed r")
    case True
    have "key_again (for_loop (body_part_000 fl re (GetKey w)) initial_state (r # rs))"
      by (rule for_loop_first[where R = key_again])
         (rule first_pass_part_000(2)[OF assms(1) True], rule key_again_part_000[OF assms(1)])
    with key_again_main_part_000[OF assms(1,2) re] s True show ?thesis by simp
  next
    case False
    have "key_once (for_loop (body_part_000 fl re (GetKey w)) initial_state (r # rs))"
      by (rule for_loop_first[where R = key_once])
         (rule first_pass_part_000(1)[OF assms(1) False], rule key_once_part_000[OF assms(1)])
    with key_once_main_part_000[OF assms(1,2) re] s False show ?thesis by simp
  qed
qed

lemma GetKey_once_main_go:
  assumes "flag_json fl = []"
    and "Compile w (''(?i)'' @ flag_location fl) \<noteq> None"
  shows "Stream w = [] \<Longrightarrow> GetKey_calls (snd (main_go fl w)) = 1"
    and "Stream w = r # rs \<Longrightarrow> well_formed r \<Longrightarrow>
         (GetKey_calls (snd (main_go fl w)) = 1 \<longleftrightarrow> \<not> fetch_failed r)"
proof -
  from assms(2) obtain re where re: "Compile w (''(?i)'' @ flag_location fl) = Some re" by blast
  show "GetKey_calls (snd (main_go fl w)) = 1" if "Stream w = []"
    using that assms(1) main_go_run[OF re]
    by (simp add: GetKey_calls_request_main_go initial_state_def)
  show "GetKey_calls (snd (main_go fl w)) = 1 \<longleftrightarrow> \<not> fetch_failed r" if s: "Stream w = r # rs" and wf: "well_formed r"
  proof (cases "fetch_failed r")
    case True
    have "key_again (for_loop (body_main_go fl re (GetKey w)) initial_state (r # rs))"
      by (rule for_loop_first[where R = key_again])
         (rule first_pass_main_go(2)[OF assms(1) True wf], rule key_again_main_go[OF assms(1)])
    with key_again_main_main_go[OF assms(1) re] s True show ?thesis by simp
  next
    case False
    have "key_once (for_loop (body_main_go fl re (GetKey w)) initial_state (r # rs))"
      by (rule for_loop_first[where R = key_once])
         (rule first_pass_main_go(1)[OF assms(1) False], rule key_once_main_go[OF assms(1)])
    with key_once_main_main_go[OF assms(1) re] s False show ?thesis by simp
  qed
qed

text \<open>Pages that are fetched and processed one after the other.\<close>

lemma advance_part_000:
  assumes http: "flag_json fl = []" and lim: "flag_limit fl = 0"
    and r: "rsp_err r = None" "rsp_users r = Some pg" "Items pg \<noteq> []" "HasMore pg"
      "list_all (\<lambda>u. MinReputation_part_000 \<le> uReputation u) (Items pg)"
    and st: "\<not> stop st"
  shows "if currentPage st + 1 < MaxPages_part_000
         then \<exists>st'. body_part_000 fl re k st r = Continue st' \<and> \<not> stop st' \<and>
                currentPage st' = currentPage st + 1 \<and> lastPage st' = currentPage st \<and>
                counter st' = counter st + int (length (qualifying MinReputation_part_000 re (Items pg))) \<and>
                fetched_pages (events st') = fetched_pages (events st) @ [currentPage st]
         else \<exists>st'. body_part_000 fl re k st r = Break st' \<and>
                currentPage st' = currentPage st + 1 \<and> lastPage st' = currentPage st \<and>
                counter st' = counter st + int (length (qualifying MinReputation_part_000 re (Items pg))) \<and>
                fetched_pages (events st') = fetched_pages (events st) @ [currentPage st]"
proof -
  have nf: "\<not> fetch_failed r" using r by (simp add: fetch_failed_def)
  have q: "\<And>c rs out. quiet (GetUserInfo_range MinReputation_part_000 re (flag_limit fl) (flag_term fl) (Items pg) (c, rs, out))
      = (True, c + int (length (qualifying MinReputation_part_000 re (Items pg))),
         rs @ numbered c (qualifying MinReputation_part_000 re (Items pg)))"
    using range_unlimited[of MinReputation_part_000 re "flag_term fl" "Items pg"] lim r(5) by simp
  from http show ?thesis
  proof (cases rule: body_part_000_http_cases[where r = r and st = st and re = re and k = k])
    case (exit ky)
    with nf show ?thesis by simp
  next
    case (retry ky st')
    with nf show ?thesis by simp
  next
    case (stop ky u rep out st')
    from stop(2) r(2) have u: "u = pg" by simp
    from q[of "counter st" "ranks st" "[]"] stop(4) u
    have rep: "rep" and c: "counter st' = counter st + int (length (qualifying MinReputation_part_000 re (Items pg)))"
      by simp_all
    from stop rep u r(4) st have "MaxPages_part_000 \<le> currentPage st + 1" by simp
    with stop rep c show ?thesis by (simp add: fetched_pages_append)
  next
    case (advance ky u out st')
    from advance(2) r(2) have u: "u = pg" by simp
    from q[of "counter st" "ranks st" "[]"] advance(4) u
    have c: "counter st' = counter st + int (length (qualifying MinReputation_part_000 re (Items pg)))"
      by simp
    from advance have "currentPage st + 1 < MaxPages_part_000" by (simp add: MaxPages_part_000_def)
    with advance c st show ?thesis by (simp add: fetched_pages_append)
  qed
qed

lemma advance_pages_part_000:
  assumes http: "flag_json fl = []" and lim: "flag_limit fl = 0"
    and r: "rsp_err r = None" "rsp_users r = Some pg" "Items pg \<noteq> []" "HasMore pg"
      "list_all (\<lambda>u. MinReputation_part_000 \<le> uReputation u) (Items pg)"
  shows "\<not> stop st \<Longrightarrow> currentPage st + int n < MaxPages_part_000 \<Longrightarrow>
     \<exists>st'. for_loop (body_part_000 fl re k) st (replicate n r) = Continue st' \<and> \<not> stop st' \<and>
       currentPage st' = currentPage st + int n \<and>
       counter st' = counter st + int n * int (length (qualifying MinReputation_part_000 re (Items pg))) \<and>
       fetched_pages (events st') = fetched_pages (events st) @ [currentPage st .. currentPage st + int n - 1]"
proof (induction n arbitrary: st)
  case 0
  then show ?case by simp
next
  case (Suc n)
  from Suc.prems have lt: "currentPage st + 1 < MaxPages_part_000" by simp
  from advance_part_000[OF http lim r Suc.prems(1), of re k] lt
  obtain s1 where s1: "body_part_000 fl re k st r = Continue s1" "\<not> stop s1"
    "currentPage s1 = currentPage st + 1"
    "counter s1 = counter st + int (length (qualifying MinReputation_part_000 re (Items pg)))"
    "fetched_pages (events s1) = fetched_pages (events st) @ [currentPage st]"
    by auto
  from Suc.prems s1 have "currentPage s1 + int n < MaxPages_part_000" by simp
  from Suc.IH[OF s1(2) this] obtain st' where st':
    "for_loop (body_part_000 fl re k) s1 (replicate n r) = Continue st'" "\<not> stop st'"
    "currentPage st' = currentPage s1 + int n"
    "counter st' = counter s1 + int n * int (length (qualifying MinReputation_part_000 re (Items pg)))"
    "fetched_pages (events st') = fetched_pages (events s1) @ [currentPage s1 .. currentPage s1 + int n - 1]"
    by blast
  have up: "[currentPage st .. currentPage st + int (Suc n) - 1] =
            currentPage st # [currentPage st + 1 .. currentPage st + 1 + int n - 1]"
    by (subst upto_rec1) (simp_all add: algebra_simps)
  from s1 st' up show ?case by (simp add: algebra_simps)
qed

text \<open>The Result List only grows, and its ranks count from 1.\<close>

lemma extends_refl: "counter st' = counter st \<Longrightarrow> ranks st' = ranks st \<Longrightarrow> extends st st'"
  unfolding extends_def by (intro exI[of _ "[]"]) simp

lemma extends_trans: "extends a b \<Longrightarrow> extends b c \<Longrightarrow> extends a c"
  unfolding extends_def
proof -
  assume "\<exists>acc. ranks b = ranks a @ numbered (counter a) acc \<and> counter b = counter a + int (length acc)"
    and "\<exists>acc. ranks c = ranks b @ numbered (counter b) acc \<and> counter c = counter b + int (length acc)"
  then obtain x y where x: "ranks b = ranks a @ numbered (counter a) x" "counter b = counter a + int (length x)"
    and y: "ranks c = ranks b @ numbered (counter b) y" "counter c = counter b + int (length y)" by blast
  then have "ranks c = ranks a @ numbered (counter a) (x @ y) \<and> counter c = counter a + int (length (x @ y))"
    by (simp add: numbered_append)
  then show "\<exists>acc. ranks c = ranks a @ numbered (counter a) acc \<and> counter c = counter a + int (length acc)"
    by blast
qed

lemma range_extends:
  assumes "GetUserInfo_range m re lim t xs (counter st, ranks st, []) = (rep, counter st', ranks st', out)"
  shows "extends st st'"
proof -
  from range_appends[of m re lim t xs "counter st" "ranks st" "[]"] assms
  show ?thesis by (auto simp add: extends_def)
qed

lemma body_part_000_extends: "result_extends st (body_part_000 fl re k st r)"
proof (cases "flag_json fl = []")
  case True
  then show ?thesis
    by (cases rule: body_part_000_http_cases[where r = r and st = st and re = re and k = k])
       (auto simp add: extends_refl range_extends)
next
  case False
  show ?thesis
    by (cases rule: file_mode_cases[OF False body_part_000_file_eq[OF False, of re k], of r st])
       (auto simp add: range_extends)
qed

lemma body_main_go_extends: "result_extends st (body_main_go fl re k st r)"
proof (cases "flag_json fl = []")
  case True
  then show ?thesis
    by (cases rule: body_main_go_http_cases[where r = r and st = st and re = re and k = k])
       (auto simp add: extends_refl range_extends)
next
  case False
  show ?thesis
    by (cases rule: file_mode_cases[OF False body_main_go_file_eq[OF False, of re k], of r st])
       (auto simp add: range_extends)
qed

lemma for_loop_extends:
  assumes "\<And>s r. result_extends s (body s r)"
  shows "result_extends st (for_loop body st rs)"
proof (induction rs arbitrary: st)
  case Nil
  show ?case by (simp add: extends_refl)
next
  case (Cons r rs)
  show ?case
  proof (cases "body st r")
    case (Continue s1)
    with assms[of st r] have e1: "extends st s1" by simp
    from Cons.IH[of s1] e1 Continue show ?thesis
      by (cases "for_loop body s1 rs") (auto intro: extends_trans)
  next
    case (Break s1)
    with assms[of st r] show ?thesis by simp
  next
    case (OsExit c ev)
    then show ?thesis by simp
  next
    case (Panicked ev)
    then show ?thesis by simp
  qed
qed

lemma upto_from_1: "0 \<le> c \<Longrightarrow> [1..c] @ [c + 1 .. c + int n] = [1 .. c + int n]"
proof (cases "c = 0")
  case True
  then show ?thesis by simp
next
  case False
  assume "0 \<le> c"
  with False have "1 \<le> c" "c \<le> c + int n" by simp_all
  from upto_split2[OF this] show ?thesis by simp
qed

lemma extends_ranks_ok:
  assumes "extends st st'" "0 \<le> counter st" "map Rank (ranks st) = [1..counter st]"
  shows "0 \<le> counter st' \<and> map Rank (ranks st') = [1..counter st'] \<and> counter st' = int (length (ranks st'))
         \<and> take (length (ranks st)) (ranks st') = ranks st"
proof -
  from assms(1) obtain acc where acc: "ranks st' = ranks st @ numbered (counter st) acc"
    "counter st' = counter st + int (length acc)" unfolding extends_def by blast
  have "length (map Rank (ranks st)) = nat (counter st)" using assms(3) by simp
  then have len: "int (length (ranks st)) = counter st" using assms(2) by simp
  from acc assms(2,3) len upto_from_1[OF assms(2), of "length acc"] show ?thesis
    by (simp add: map_Rank_numbered)
qed

lemma ranks_from_initial:
  assumes "result_extends initial_state x" "x = Continue st \<or> x = Break st"
  shows "map Rank (ranks st) = [1..counter st] \<and> counter st = int (length (ranks st))"
proof -
  from assms have "extends initial_state st" by auto
  from extends_ranks_ok[OF this] show ?thesis by (simp add: initial_state_def)
qed

lemma ranks_later:
  assumes step: "\<And>s r. result_extends s (body s r)"
    and "for_loop body initial_state rsps = Continue st"
    and "for_loop body initial_state (rsps @ later) = Continue st' \<or> for_loop body initial_state (rsps @ later) = Break st'"
  shows "take (length (ranks st)) (ranks st') = ranks st \<and> map Rank (ranks st') = [1..counter st']"
proof -
  from for_loop_extends[of body initial_state rsps, OF step] assms(2)
  have "extends initial_state st" by simp
  from extends_ranks_ok[OF this] have ok: "0 \<le> counter st" "map Rank (ranks st) = [1..counter st]"
    by (simp_all add: initial_state_def)
  from assms(2,3) have "for_loop body st later = Continue st' \<or> for_loop body st later = Break st'"
    by (simp add: for_loop_append)
  with for_loop_extends[of body st later, OF step] have "extends st st'" by auto
  from extends_ranks_ok[OF this ok] show ?thesis by simp
qed

text \<open>The loop filters the pages it is handed as one call of the filter would filter them all.\<close>

lemma range_append:
  "GetUserInfo_range m loc lim t (xs @ ys) st =
     (if fst (GetUserInfo_range m loc lim t xs st)
      then GetUserInfo_range m loc lim t ys (snd (GetUserInfo_range m loc lim t xs st))
      else GetUserInfo_range m loc lim t xs st)"
proof (induction xs arbitrary: st)
  case Nil
  show ?case by simp
next
  case (Cons x xs)
  obtain c rs out where st: "st = (c, rs, out)" by (cases st) auto
  show ?case unfolding st using Cons.IH by (simp add: Let_def)
qed

lemma quiet_range_append:
  assumes "quiet (GetUserInfo_range m loc lim t xs (c, rs, out)) = (rep, c1, rs1)"
  shows "quiet (GetUserInfo_range m loc lim t (xs @ ys) (c, rs, out)) =
     (if rep then quiet (GetUserInfo_range m loc lim t ys (c1, rs1, [])) else (False, c1, rs1))"
proof -
  obtain out1 where g: "GetUserInfo_range m loc lim t xs (c, rs, out) = (rep, c1, rs1, out1)"
    using assms by (cases "GetUserInfo_range m loc lim t xs (c, rs, out)") auto
  show ?thesis
    using range_append[of m loc lim t xs ys "(c, rs, out)"] g
      range_quiet[of m loc lim t ys c1 rs1 out1 t "[]"]
    by auto
qed

lemma handed_over_Cons: "handed_over (r # rs) = handed_over [r] @ handed_over rs"
  by (simp add: handed_over_def)

lemma handed_over_snoc: "handed_over (rs @ [r]) = handed_over rs @ handed_over [r]"
  by (simp add: handed_over_def)

lemma handed_over_failed: "fetch_failed r \<Longrightarrow> handed_over [r] = []"
  by (simp add: handed_over_def)

lemma handed_over_fetched: "\<not> fetch_failed r \<Longrightarrow> rsp_users r = Some u \<Longrightarrow> handed_over [r] = Items u"
  by (simp add: handed_over_def)

lemma handed_over_file: "rsp_users r = Some u \<Longrightarrow> rsp_err r = None \<Longrightarrow> handed_over [r] = Items u"
  by (auto simp add: handed_over_def fetch_failed_def)

lemma filters_part_000:
  "filters (GetUserInfo_range MinReputation_part_000 re (flag_limit fl) (flag_term fl)) r st
     (body_part_000 fl re k st r)"
proof (cases "flag_json fl = []")
  case True
  then show ?thesis
    by (cases rule: body_part_000_http_cases[where r = r and st = st and re = re and k = k])
       (simp_all add: handed_over_failed handed_over_fetched)
next
  case False
  show ?thesis
    by (cases rule: file_mode_cases[OF False body_part_000_file_eq[OF False, of re k], of r st])
       (simp_all add: handed_over_file)
qed

lemma filters_main_go:
  assumes "flag_json fl = [] \<longrightarrow> users st = None"
  shows "filters (GetUserInfo_range MinReputation_main_go re (flag_limit fl) (flag_term fl)) r st
     (body_main_go fl re k st r)"
    and "\<And>st'. body_main_go fl re k st r = Continue st' \<Longrightarrow> flag_json fl = [] \<longrightarrow> users st' = None"
proof -
  show "filters (GetUserInfo_range MinReputation_main_go re (flag_limit fl) (flag_term fl)) r st
     (body_main_go fl re k st r)"
  proof (cases "flag_json fl = []")
    case True
    then show ?thesis using True assms
      by (cases rule: body_main_go_http_cases[where r = r and st = st and re = re and k = k])
         (simp_all add: handed_over_failed)
  next
    case False
    show ?thesis
      by (cases rule: file_mode_cases[OF False body_main_go_file_eq[OF False, of re k], of r st])
         (simp_all add: handed_over_file)
  qed
  show "\<And>st'. body_main_go fl re k st r = Continue st' \<Longrightarrow> flag_json fl = [] \<longrightarrow> users st' = None"
  proof (cases "flag_json fl = []")
    case True
    fix st' assume "body_main_go fl re k st r = Continue st'"
    with True True assms show "flag_json fl = [] \<longrightarrow> users st' = None"
      by (cases rule: body_main_go_http_cases[where r = r and st = st and re = re and k = k]) simp_all
  next
    case False
    fix st' assume "body_main_go fl re k st r = Continue st'"
    with False show "flag_json fl = [] \<longrightarrow> users st' = None" by simp
  qed
qed

lemma for_loop_filters:
  assumes step: "\<And>s r. P s \<Longrightarrow> filters G r s (body s r)"
    and inv: "\<And>s r s'. P s \<Longrightarrow> body s r = Continue s' \<Longrightarrow> P s'"
    and G: "G = GetUserInfo_range m loc lim t"
  shows "P st \<Longrightarrow> for_loop body st rsps = Continue st' \<Longrightarrow>
           P st' \<and> quiet (G (handed_over rsps) (counter st, ranks st, [])) = (True, counter st', ranks st')"
proof (induction rsps arbitrary: st)
  case Nil
  then show ?case by (simp add: handed_over_def G)
next
  case (Cons r rs)
  from Cons.prems(2) obtain s1 where s1: "body st r = Continue s1" "for_loop body s1 rs = Continue st'"
    by (auto split: step.splits)
  from step[OF Cons.prems(1), of r] s1
  have a: "quiet (G (handed_over [r]) (counter st, ranks st, [])) = (True, counter s1, ranks s1)" by simp
  from Cons.IH[OF inv[OF Cons.prems(1) s1(1)] s1(2)]
  have b: "P st'" "quiet (G (handed_over rs) (counter s1, ranks s1, [])) = (True, counter st', ranks st')"
    by simp_all
  from quiet_range_append[OF a[unfolded G], of "handed_over rs"] b
  show ?case by (simp add: handed_over_Cons[of r rs] G)
qed

lemma for_loop_filters_Break:
  assumes step: "\<And>s r. P s \<Longrightarrow> filters G r s (body s r)"
    and inv: "\<And>s r s'. P s \<Longrightarrow> body s r = Continue s' \<Longrightarrow> P s'"
    and G: "G = GetUserInfo_range m loc lim t"
    and "P st" "for_loop body st pre = Continue sh" "body sh r = Break st'"
  shows "snd (quiet (G (handed_over (pre @ [r])) (counter st, ranks st, []))) = (counter st', ranks st')"
proof -
  from for_loop_filters[of P G body m loc lim t st pre sh, OF step inv G assms(4,5)]
  have a: "P sh" "quiet (G (handed_over pre) (counter st, ranks st, [])) = (True, counter sh, ranks sh)"
    by simp_all
  from step[OF a(1), of r] assms(6)
  have b: "snd (quiet (G (handed_over [r]) (counter sh, ranks sh, []))) = (counter st', ranks st')" by simp
  from quiet_range_append[OF a(2)[unfolded G], of "handed_over [r]"] b
  show ?thesis by (simp add: handed_over_snoc G)
qed

text \<open>The Result List under a limit.\<close>

lemma last_rank:
  assumes "map Rank rs = [1..c]" "0 < N"
  shows "(rs \<noteq> [] \<and> Rank (last rs) = N) \<longleftrightarrow> c = N"
proof (cases "rs = []")
  case True
  with assms(1) have "[1..c] = []" by simp
  then have "c < 1" by simp
  with True assms(2) show ?thesis by simp
next
  case False
  then have "Rank (last rs) = last (map Rank rs)" by (simp add: last_map)
  also have "\<dots> = last [1..c]" using assms(1) by simp
  finally have l: "Rank (last rs) = last [1..c]" .
  from False assms(1) have "[1..c] \<noteq> []" by (metis map_is_Nil_conv)
  then have "1 \<le> c" by simp
  then have "last [1..c] = c" using upto_rec2[of 1 c] by simp
  with l False show ?thesis by simp
qed

lemma limited_from_0:
  assumes "0 < N"
    and "snd (quiet (GetUserInfo_range m loc N t xs (0, [], []))) = (c', rs')"
  shows "rs' = numbered 0 (take (nat N) (qualifying m loc xs))"
    and "c' = int (length rs')" and "length rs' \<le> nat N"
    and "(rs' \<noteq> [] \<and> Rank (last rs') = N) \<longleftrightarrow> nat N \<le> length (qualifying m loc xs)"
proof -
  from range_limited[OF assms(1) assms(1), of m loc t xs "[]" "[]"] assms(2)
  have c: "c' = int (length (take (nat N) (qualifying m loc xs)))"
    and r: "rs' = numbered 0 (take (nat N) (qualifying m loc xs))" by simp_all
  show "rs' = numbered 0 (take (nat N) (qualifying m loc xs))" by (rule r)
  from c r show l: "c' = int (length rs')" by simp
  from r show "length rs' \<le> nat N" by simp
  have "map Rank rs' = [1..c']" using r c map_Rank_numbered[of 0 "take (nat N) (qualifying m loc xs)"] by simp
  from last_rank[OF this assms(1)] c assms(1)
  show "(rs' \<noteq> [] \<and> Rank (last rs') = N) \<longleftrightarrow> nat N \<le> length (qualifying m loc xs)"
    by auto
qed

lemma unlimited_from_0:
  assumes "0 < N"
    and "quiet (GetUserInfo_range m loc N t xs (0, [], [])) = (True, c', rs')"
  shows "rs' = numbered 0 (qualifying m loc xs)" and "length rs' < nat N"
proof -
  from range_limited[OF assms(1) assms(1), of m loc t xs "[]" "[]"] assms(2)
  have "int (length (qualifying m loc xs)) < N"
    and r: "rs' = numbered 0 (take (nat N) (qualifying m loc xs))" by simp_all
  then show "rs' = numbered 0 (qualifying m loc xs)" and "length rs' < nat N" by simp_all
qed

lemma limited_call:
  assumes "0 < N" "0 \<le> c" "c < N" "map Rank rs = [1..c]"
    and g: "GetUserInfo_range m loc N t xs (c, rs, []) = (rep, c', rs', out)"
  shows "length rs' \<le> nat N" "c' = int (length rs')" "c' = N \<longrightarrow> \<not> rep"
    "(rs' \<noteq> [] \<and> Rank (last rs') = N) \<longleftrightarrow> N \<le> c + int (length (qualifying m loc xs))"
proof -
  let ?q = "qualifying m loc xs"
  from range_limited[OF assms(1,3), of m loc t xs rs "[]"] g
  have rep: "rep = (list_all (\<lambda>u. m \<le> uReputation u) xs \<and> c + int (length ?q) < N)"
    and c: "c' = c + int (length (take (nat (N - c)) ?q))"
    and r: "rs' = rs @ numbered c (take (nat (N - c)) ?q)" by simp_all
  from assms(4) have "length [1..c] = length rs" by (metis length_map)
  with assms(2) have len: "int (length rs) = c" by auto
  from c r len show l: "c' = int (length rs')" by simp
  from l c assms(3) show "length rs' \<le> nat N" by simp
  from rep c assms(3) show "c' = N \<longrightarrow> \<not> rep" by auto
  have "map Rank rs' = [1..c']"
    using r c assms(4) upto_from_1[OF assms(2), of "length (take (nat (N - c)) ?q)"]
    by (simp add: map_Rank_numbered)
  from last_rank[OF this assms(1)] c assms(3)
  show "(rs' \<noteq> [] \<and> Rank (last rs') = N) \<longleftrightarrow> N \<le> c + int (length ?q)" by auto
qed

text \<open>The definitions that a concrete run unfolds.\<close>

lemmas run_defs = body_part_000_def body_main_go_def fetch_part_000_def fetch_main_go_def request_part_000_def request_main_go_def request_file_def stream_failed_def
  filter_and_advance_def read_file_def GetUserInfo_def initial_state_def MaxErrors_def
  MaxPages_part_000_def MaxPages_main_go_def MinReputation_part_000_def MinReputation_main_go_def
  failed_fetch_def page_of_def user_of_def user0_def world_of_def default_flags_def MatchString_default_def
  main_part_000_def main_go_def finish_part_000_def finish_main_go_def DumpJson_def DumpMarkdown_def
  new_SOUsers_def rank_entry_def Let_def

section \<open>The claims\<close>

text \<open>
  C1. The Rank Filter visits no record after the first whose reputation is below the
  minimum: when \<open>u\<close> is the first such record of a page (every record of \<open>pre\<close> is at or
  above the minimum), the call returns false and leaves the counter, the Result List and
  the log exactly as the call on \<open>pre\<close> alone leaves them, whatever follows \<open>u\<close>. This
  holds for every page, so for every page in non-increasing order of reputation. On a
  page with reputations 900, 700, 300, a minimum between 301 and 700 (500, or the 400 of
  src/main.go), a pattern that matches everything and no limit below 3, the first two
  records are accepted and the call returns false.
\<close>

theorem GetUserInfo_stops_at_first_below:
  "((\<forall>x\<in>set pre. m \<le> uReputation x) \<and> uReputation u < m \<longrightarrow>
      GetUserInfo (Some (page\<lparr>Items := pre @ u # post\<rparr>)) m loc c lim rs t =
        map_option (\<lambda>(rep, st). (False, st)) (GetUserInfo (Some (page\<lparr>Items := pre\<rparr>)) m loc c lim rs t))
   \<and> ((lim = 0 \<or> 2 < lim) \<and> 300 < m \<and> m \<le> 700 \<longrightarrow>
      silent (GetUserInfo
               (Some (page\<lparr>Items := [a\<lparr>uReputation := 900\<rparr>, b\<lparr>uReputation := 700\<rparr>, d\<lparr>uReputation := 300\<rparr>]\<rparr>))
               m (\<lambda>s. True) 0 lim [] t) =
        Some (False, 2, [rank_entry 1 (a\<lparr>uReputation := 900\<rparr>), rank_entry 2 (b\<lparr>uReputation := 700\<rparr>)]))"
proof (intro conjI impI)
  assume "(\<forall>x\<in>set pre. m \<le> uReputation x) \<and> uReputation u < m"
  then have "GetUserInfo_range m loc lim t (pre @ u # post) (c, rs, []) =
             (False, snd (GetUserInfo_range m loc lim t pre (c, rs, [])))"
    using range_first_below by blast
  then show "GetUserInfo (Some (page\<lparr>Items := pre @ u # post\<rparr>)) m loc c lim rs t =
        map_option (\<lambda>(rep, st). (False, st)) (GetUserInfo (Some (page\<lparr>Items := pre\<rparr>)) m loc c lim rs t)"
    by (simp add: GetUserInfo_def split_beta)
next
  assume "(lim = 0 \<or> 2 < lim) \<and> 300 < m \<and> m \<le> 700"
  then show "silent (GetUserInfo
               (Some (page\<lparr>Items := [a\<lparr>uReputation := 900\<rparr>, b\<lparr>uReputation := 700\<rparr>, d\<lparr>uReputation := 300\<rparr>]\<rparr>))
               m (\<lambda>s. True) 0 lim [] t) =
        Some (False, 2, [rank_entry 1 (a\<lparr>uReputation := 900\<rparr>), rank_entry 2 (b\<lparr>uReputation := 700\<rparr>)])"
    by (auto simp add: GetUserInfo_def silent_def Let_def)
qed

theorem GetUserInfo_stops_at_first_below_witness:
  "GetUserInfo (Some (new_SOUsers\<lparr>Items := [user0\<lparr>uReputation := 900\<rparr>, user0\<lparr>uReputation := 700\<rparr>,
        user0\<lparr>uReputation := 300\<rparr>, user0\<lparr>uReputation := 800\<rparr>]\<rparr>)) MinReputation_part_000 (\<lambda>s. True) 0 20 [] False
    = Some (False, 2, [rank_entry 1 (user0\<lparr>uReputation := 900\<rparr>), rank_entry 2 (user0\<lparr>uReputation := 700\<rparr>)], [])
   \<and> silent (GetUserInfo (Some (new_SOUsers\<lparr>Items := [user0\<lparr>uReputation := 900\<rparr>, user0\<lparr>uReputation := 700\<rparr>,
        user0\<lparr>uReputation := 300\<rparr>]\<rparr>)) MinReputation_part_000 (\<lambda>s. True) 0 20 [] False)
    = Some (False, 2, [rank_entry 1 (user0\<lparr>uReputation := 900\<rparr>), rank_entry 2 (user0\<lparr>uReputation := 700\<rparr>)])"
proof -
  have h1: "(\<forall>x\<in>set [user0\<lparr>uReputation := 900\<rparr>, user0\<lparr>uReputation := 700\<rparr>]. MinReputation_part_000 \<le> uReputation x)
        \<and> uReputation (user0\<lparr>uReputation := 300\<rparr>) < MinReputation_part_000"
    by (simp add: MinReputation_part_000_def)
  have h2: "((20::int) = 0 \<or> 2 < (20::int)) \<and> 300 < MinReputation_part_000 \<and> MinReputation_part_000 \<le> 700"
    by (simp add: MinReputation_part_000_def)
  have pre: "GetUserInfo (Some (new_SOUsers\<lparr>Items := [user0\<lparr>uReputation := 900\<rparr>, user0\<lparr>uReputation := 700\<rparr>]\<rparr>))
        MinReputation_part_000 (\<lambda>s. True) 0 20 [] False
      = Some (True, 2, [rank_entry 1 (user0\<lparr>uReputation := 900\<rparr>), rank_entry 2 (user0\<lparr>uReputation := 700\<rparr>)], [])"
    by (simp add: GetUserInfo_def MinReputation_part_000_def Let_def)
  from GetUserInfo_stops_at_first_below[where pre = "[user0\<lparr>uReputation := 900\<rparr>, user0\<lparr>uReputation := 700\<rparr>]"
      and m = MinReputation_part_000 and u = "user0\<lparr>uReputation := 300\<rparr>" and page = new_SOUsers
      and post = "[user0\<lparr>uReputation := 800\<rparr>]" and loc = "\<lambda>s. True" and c = 0 and lim = 20
      and rs = "[]" and t = False and a = user0 and b = user0 and d = user0] h1 h2 pre
  show ?thesis by simp
qed

text \<open>
  C9. The flag \<open>term\<close> influences console logging only: with it true and with it false
  \<open>GetUserInfo\<close> returns the same signal, the same counter and the same Result List (or
  panics in both cases on a nil page), and with it false nothing is logged.
\<close>

theorem GetUserInfo_term_only_logs:
  "silent (GetUserInfo us m loc c lim rs True) = silent (GetUserInfo us m loc c lim rs False)
   \<and> GetUserInfo us m loc c lim rs False =
       map_option (\<lambda>(rep, c', rs', out). (rep, c', rs', [])) (GetUserInfo us m loc c lim rs True)"
proof (cases us)
  case None
  then show ?thesis by (simp add: GetUserInfo_def silent_def)
next
  case (Some u)
  obtain rep c' rs' out where T: "GetUserInfo_range m loc lim True (Items u) (c, rs, []) = (rep, c', rs', out)"
    by (metis prod_cases4)
  obtain rep2 c2 rs2 out2 where F: "GetUserInfo_range m loc lim False (Items u) (c, rs, []) = (rep2, c2, rs2, out2)"
    by (metis prod_cases4)
  from range_quiet[of m loc lim True "Items u" c rs "[]" False "[]"] T F
  have eq: "rep2 = rep" "c2 = c'" "rs2 = rs'" by simp_all
  from range_not_term[of m loc lim "Items u" c rs "[]"] F have "out2 = []" by simp
  with eq T F Some show ?thesis by (simp add: GetUserInfo_def silent_def)
qed

text \<open>
  C10. The error counter \<open>streamErrors\<close> is global to the run and is never reset. In HTTP
  mode, whenever the loop is at its head the counter equals the number of failed or empty
  fetches among all the fetches made so far, successful fetches in between included, and
  is below \<open>MaxErrors = 3\<close>; when two fetches have failed so far, the next failed fetch
  ends the run with \<open>os.Exit(5)\<close>, whatever pages the failures were on. So a run
  tolerates at most two failed fetches in total. This holds for both drivers (in
  src/main.go for a fetch that returns a page or an error). In the run of the later
  driver whose fetches fail on page 1, succeed on page 1, fail on page 2, succeed on
  page 2 and fail on page 3, the process exits with code 5.
\<close>

theorem streamErrors_never_reset:
  "(flag_json fl = [] \<and> for_loop (body_part_000 fl re k) initial_state rs = Continue st \<longrightarrow>
      streamErrors st = int (length (filter fetch_failed rs)) \<and> streamErrors st < MaxErrors)
   \<and> (flag_json fl = [] \<and> for_loop (body_part_000 fl re k) initial_state pre = Continue st \<and>
       length (filter fetch_failed pre) = 2 \<and> fetch_failed r \<longrightarrow>
      (\<exists>ev. for_loop (body_part_000 fl re k) initial_state (pre @ r # post) = OsExit 5 ev))
   \<and> (flag_json fl = [] \<and> for_loop (body_main_go fl re k) initial_state rs = Continue st \<longrightarrow>
      streamErrors st = int (length (filter fetch_failed rs)) \<and> streamErrors st < MaxErrors)
   \<and> (flag_json fl = [] \<and> for_loop (body_main_go fl re k) initial_state pre = Continue st \<and>
       length (filter fetch_failed pre) = 2 \<and> fetch_failed r \<and> well_formed r \<longrightarrow>
      (\<exists>ev. for_loop (body_main_go fl re k) initial_state (pre @ r # post) = OsExit 5 ev))
   \<and> MaxErrors = 3
   \<and> fst (main_part_000 default_flags
        (world_of [failed_fetch, page_of [user_of 900 ''Madrid''] True, failed_fetch,
                   page_of [user_of 800 ''Madrid''] True, failed_fetch])) = Exit 5
   \<and> fetched_pages (snd (main_part_000 default_flags
        (world_of [failed_fetch, page_of [user_of 900 ''Madrid''] True, failed_fetch,
                   page_of [user_of 800 ''Madrid''] True, failed_fetch]))) = [1, 1, 2, 2, 3]"
proof (intro conjI impI)
  assume a: "flag_json fl = [] \<and> for_loop (body_part_000 fl re k) initial_state rs = Continue st"
  from for_loop_count[of "body_part_000 fl re k" initial_state rs st streamErrors fetch_failed]
    errors_step_part_000(1)[of fl re k] a
  show "streamErrors st = int (length (filter fetch_failed rs))" by (simp add: initial_state_def)
  from for_loop_Continue_inv[of "body_part_000 fl re k" initial_state rs st "\<lambda>s. streamErrors s < MaxErrors"]
    errors_step_part_000(2)[of fl re k] a
  show "streamErrors st < MaxErrors" by (simp add: initial_state_def MaxErrors_def)
next
  assume a: "flag_json fl = [] \<and> for_loop (body_part_000 fl re k) initial_state pre = Continue st \<and>
       length (filter fetch_failed pre) = 2 \<and> fetch_failed r"
  from for_loop_count[of "body_part_000 fl re k" initial_state pre st streamErrors fetch_failed]
    errors_step_part_000(1)[of fl re k] a
  have "streamErrors st = 2" by (simp add: initial_state_def)
  from third_failure_part_000[of fl r st re k] this a
  obtain ev where "body_part_000 fl re k st r = OsExit 5 ev" by blast
  with a have "for_loop (body_part_000 fl re k) initial_state (pre @ r # post) = OsExit 5 ev"
    by (simp add: for_loop_append)
  then show "\<exists>ev. for_loop (body_part_000 fl re k) initial_state (pre @ r # post) = OsExit 5 ev" by blast
next
  assume a: "flag_json fl = [] \<and> for_loop (body_main_go fl re k) initial_state rs = Continue st"
  from for_loop_count[of "body_main_go fl re k" initial_state rs st streamErrors fetch_failed]
    errors_step_main_go(1)[of fl re k] a
  show "streamErrors st = int (length (filter fetch_failed rs))" by (simp add: initial_state_def)
  from for_loop_Continue_inv[of "body_main_go fl re k" initial_state rs st "\<lambda>s. streamErrors s < MaxErrors"]
    errors_step_main_go(2)[of fl re k] a
  show "streamErrors st < MaxErrors" by (simp add: initial_state_def MaxErrors_def)
next
  assume a: "flag_json fl = [] \<and> for_loop (body_main_go fl re k) initial_state pre = Continue st \<and>
       length (filter fetch_failed pre) = 2 \<and> fetch_failed r \<and> well_formed r"
  from for_loop_count[of "body_main_go fl re k" initial_state pre st streamErrors fetch_failed]
    errors_step_main_go(1)[of fl re k] a
  have "streamErrors st = 2" by (simp add: initial_state_def)
  from third_failure_main_go[of fl r st re k] this a
  obtain ev where "body_main_go fl re k st r = OsExit 5 ev" by blast
  with a have "for_loop (body_main_go fl re k) initial_state (pre @ r # post) = OsExit 5 ev"
    by (simp add: for_loop_append)
  then show "\<exists>ev. for_loop (body_main_go fl re k) initial_state (pre @ r # post) = OsExit 5 ev" by blast
next
  show "MaxErrors = 3" by (simp add: MaxErrors_def)
next
  show "fst (main_part_000 default_flags
        (world_of [failed_fetch, page_of [user_of 900 ''Madrid''] True, failed_fetch,
                   page_of [user_of 800 ''Madrid''] True, failed_fetch])) = Exit 5"
    by (simp add: run_defs)
next
  show "fetched_pages (snd (main_part_000 default_flags
        (world_of [failed_fetch, page_of [user_of 900 ''Madrid''] True, failed_fetch,
                   page_of [user_of 800 ''Madrid''] True, failed_fetch]))) = [1, 1, 2, 2, 3]"
    by (simp add: run_defs)
qed

theorem streamErrors_never_reset_witness:
  "(\<exists>st. for_loop (body_part_000 default_flags MatchString_default ''K'') initial_state
           [failed_fetch, page_of [user_of 900 ''Madrid''] True, failed_fetch, page_of [user_of 800 ''Madrid''] True]
         = Continue st \<and> streamErrors st = 2 \<and> currentPage st = 3)
   \<and> (\<exists>ev. for_loop (body_part_000 default_flags MatchString_default ''K'') initial_state
           ([failed_fetch, page_of [user_of 900 ''Madrid''] True, failed_fetch, page_of [user_of 800 ''Madrid''] True]
              @ failed_fetch # []) = OsExit 5 ev)
   \<and> (\<exists>st. for_loop (body_main_go default_flags MatchString_default ''K'') initial_state
           [failed_fetch, failed_fetch] = Continue st \<and> streamErrors st = 2)
   \<and> (\<exists>ev. for_loop (body_main_go default_flags MatchString_default ''K'') initial_state
           ([failed_fetch, failed_fetch] @ failed_fetch # []) = OsExit 5 ev)"
proof -
  let ?pre = "[failed_fetch, page_of [user_of 900 ''Madrid''] True, failed_fetch, page_of [user_of 800 ''Madrid''] True]"
  have http: "flag_json default_flags = []" by (simp add: default_flags_def)
  have bad: "fetch_failed failed_fetch" "well_formed failed_fetch"
    by (simp_all add: fetch_failed_def well_formed_def failed_fetch_def)
  have n: "length (filter fetch_failed ?pre) = 2"
    by (simp add: fetch_failed_def failed_fetch_def page_of_def)
  have n2: "length (filter fetch_failed [failed_fetch, failed_fetch]) = 2"
    by (simp add: fetch_failed_def failed_fetch_def)
  obtain st where st: "for_loop (body_part_000 default_flags MatchString_default ''K'') initial_state ?pre = Continue st"
    "currentPage st = 3"
    by (simp add: run_defs)
  obtain st2 where st2: "for_loop (body_main_go default_flags MatchString_default ''K'') initial_state
      [failed_fetch, failed_fetch] = Continue st2"
    by (simp add: run_defs)
  note thm1 = streamErrors_never_reset[where fl = default_flags and re = MatchString_default and k = "''K''"
      and rs = ?pre and pre = ?pre and st = st and r = failed_fetch and post = "[]"]
  note thm2 = streamErrors_never_reset[where fl = default_flags and re = MatchString_default and k = "''K''"
      and rs = "[failed_fetch, failed_fetch]" and pre = "[failed_fetch, failed_fetch]" and st = st2
      and r = failed_fetch and post = "[]"]
  from thm1 http bad n st have a: "streamErrors st = 2"
    "\<exists>ev. for_loop (body_part_000 default_flags MatchString_default ''K'') initial_state (?pre @ failed_fetch # []) = OsExit 5 ev"
    by simp_all
  from thm2 http bad n2 st2 have b: "streamErrors st2 = 2"
    "\<exists>ev. for_loop (body_main_go default_flags MatchString_default ''K'') initial_state
         ([failed_fetch, failed_fetch] @ failed_fetch # []) = OsExit 5 ev"
    by simp_all
  from a b st st2 show ?thesis by blast
qed

text \<open>
  C4. In HTTP mode, when a fetch returns an error or a page with zero items, the pass
  through the loop body adds one to \<open>streamErrors\<close>; when the counter has then reached
  \<open>MaxErrors = 3\<close> the process ends in \<open>os.Exit(5)\<close>, having written no output file;
  otherwise the loop goes on with the same \<open>currentPage\<close> and \<open>lastPage\<close> (and the same
  counter and Result List), so the next fetch asks for the page that has just been asked
  for. Whenever a run ends with exit code 5, no output file has been written. This holds
  for both drivers (in src/main.go for a fetch that returns a page or an error). Three
  failed or empty fetches in a row end the run with exit code 5, after three requests for
  page 1, although both output files were asked for.
\<close>

theorem failed_fetch_retries_or_exits:
  "(flag_json fl = [] \<and> fetch_failed r \<longrightarrow>
      (streamErrors st + 1 < MaxErrors \<longrightarrow>
         (\<exists>st'. body_part_000 fl re k st r = Continue st' \<and> streamErrors st' = streamErrors st + 1 \<and>
                currentPage st' = currentPage st \<and> lastPage st' = lastPage st \<and>
                counter st' = counter st \<and> ranks st' = ranks st \<and>
                fetched_pages (events st') = fetched_pages (events st) @ [currentPage st]))
      \<and> (MaxErrors \<le> streamErrors st + 1 \<longrightarrow>
         (\<exists>ev. body_part_000 fl re k st r = OsExit 5 ev \<and>
               filter writes_output ev = filter writes_output (events st))))
   \<and> (flag_json fl = [] \<and> fetch_failed r \<and> well_formed r \<longrightarrow>
      (streamErrors st + 1 < MaxErrors \<longrightarrow>
         (\<exists>st'. body_main_go fl re k st r = Continue st' \<and> streamErrors st' = streamErrors st + 1 \<and>
                currentPage st' = currentPage st \<and> lastPage st' = lastPage st \<and>
                counter st' = counter st \<and> ranks st' = ranks st \<and>
                fetched_pages (events st') = fetched_pages (events st) @ [currentPage st]))
      \<and> (MaxErrors \<le> streamErrors st + 1 \<longrightarrow>
         (\<exists>ev. body_main_go fl re k st r = OsExit 5 ev \<and>
               filter writes_output ev = filter writes_output (events st))))
   \<and> (fst (main_part_000 fl w) = Exit 5 \<longrightarrow> filter writes_output (snd (main_part_000 fl w)) = [])
   \<and> (fst (main_go fl w) = Exit 5 \<longrightarrow> filter writes_output (snd (main_go fl w)) = [])
   \<and> MaxErrors = 3
   \<and> main_part_000 (default_flags\<lparr>flag_jsonrsp := ''out.json'', flag_mdrsp := ''out.md''\<rparr>)
        (world_of [failed_fetch, page_of [] True, failed_fetch]) =
      (Exit 5,
       [LogInfo ''Trying to extract API key.'', CallGetKey, CallStreamHTTP 1 ''&key=K'',
        LogWarning ''Can't stream data.'',
        LogInfo ''Trying to extract API key.'', CallGetKey, CallStreamHTTP 1 ''&key=K'',
        LogWarning ''Can't stream data.'',
        LogInfo ''Trying to extract API key.'', CallGetKey, CallStreamHTTP 1 ''&key=K'',
        LogWarning ''Can't stream data.'', LogError ''Max retry number reached''])"
proof (intro conjI)
  show "flag_json fl = [] \<and> fetch_failed r \<longrightarrow>
      (streamErrors st + 1 < MaxErrors \<longrightarrow>
         (\<exists>st'. body_part_000 fl re k st r = Continue st' \<and> streamErrors st' = streamErrors st + 1 \<and>
                currentPage st' = currentPage st \<and> lastPage st' = lastPage st \<and>
                counter st' = counter st \<and> ranks st' = ranks st \<and>
                fetched_pages (events st') = fetched_pages (events st) @ [currentPage st]))
      \<and> (MaxErrors \<le> streamErrors st + 1 \<longrightarrow>
         (\<exists>ev. body_part_000 fl re k st r = OsExit 5 ev \<and>
               filter writes_output ev = filter writes_output (events st)))"
    using failed_pass_part_000[of fl r st re k] by blast
  show "flag_json fl = [] \<and> fetch_failed r \<and> well_formed r \<longrightarrow>
      (streamErrors st + 1 < MaxErrors \<longrightarrow>
         (\<exists>st'. body_main_go fl re k st r = Continue st' \<and> streamErrors st' = streamErrors st + 1 \<and>
                currentPage st' = currentPage st \<and> lastPage st' = lastPage st \<and>
                counter st' = counter st \<and> ranks st' = ranks st \<and>
                fetched_pages (events st') = fetched_pages (events st) @ [currentPage st]))
      \<and> (MaxErrors \<le> streamErrors st + 1 \<longrightarrow>
         (\<exists>ev. body_main_go fl re k st r = OsExit 5 ev \<and>
               filter writes_output ev = filter writes_output (events st)))"
    using failed_pass_main_go[of fl r st re k] by blast
  show "fst (main_part_000 fl w) = Exit 5 \<longrightarrow> filter writes_output (snd (main_part_000 fl w)) = []"
    using main_part_000_exit_5 by blast
  show "fst (main_go fl w) = Exit 5 \<longrightarrow> filter writes_output (snd (main_go fl w)) = []"
    using main_go_exit_5 by blast
  show "MaxErrors = 3" by (simp add: MaxErrors_def)
  show "main_part_000 (default_flags\<lparr>flag_jsonrsp := ''out.json'', flag_mdrsp := ''out.md''\<rparr>)
        (world_of [failed_fetch, page_of [] True, failed_fetch]) =
      (Exit 5,
       [LogInfo ''Trying to extract API key.'', CallGetKey, CallStreamHTTP 1 ''&key=K'',
        LogWarning ''Can't stream data.'',
        LogInfo ''Trying to extract API key.'', CallGetKey, CallStreamHTTP 1 ''&key=K'',
        LogWarning ''Can't stream data.'',
        LogInfo ''Trying to extract API key.'', CallGetKey, CallStreamHTTP 1 ''&key=K'',
        LogWarning ''Can't stream data.'', LogError ''Max retry number reached''])"
    by (simp add: run_defs)
qed

theorem failed_fetch_retries_or_exits_witness:
  "(\<exists>st'. body_part_000 default_flags MatchString_default ''K'' initial_state failed_fetch = Continue st' \<and>
          streamErrors st' = 1 \<and> currentPage st' = 1 \<and> lastPage st' = 1 \<and> counter st' = 0 \<and> ranks st' = [] \<and>
          fetched_pages (events st') = [1])
   \<and> (\<exists>ev. body_part_000 default_flags MatchString_default ''K'' (initial_state\<lparr>streamErrors := 2\<rparr>) (page_of [] True)
          = OsExit 5 ev \<and> filter writes_output ev = [])
   \<and> (\<exists>st'. body_main_go default_flags MatchString_default ''K'' initial_state failed_fetch = Continue st' \<and>
          streamErrors st' = 1 \<and> currentPage st' = 1 \<and> lastPage st' = 1 \<and> counter st' = 0 \<and> ranks st' = [] \<and>
          fetched_pages (events st') = [1])
   \<and> (\<exists>ev. body_main_go default_flags MatchString_default ''K'' (initial_state\<lparr>streamErrors := 2\<rparr>) (page_of [] True)
          = OsExit 5 ev \<and> filter writes_output ev = [])
   \<and> filter writes_output (snd (main_part_000 default_flags (world_of [failed_fetch, failed_fetch, failed_fetch]))) = []
   \<and> filter writes_output (snd (main_go default_flags (world_of [failed_fetch, failed_fetch, failed_fetch]))) = []"
proof -
  have http: "flag_json default_flags = []" by (simp add: default_flags_def)
  have bad: "fetch_failed failed_fetch" "well_formed failed_fetch" "fetch_failed (page_of [] True)"
     "well_formed (page_of [] True)"
    by (simp_all add: fetch_failed_def well_formed_def failed_fetch_def page_of_def)
  have e1: "fst (main_part_000 default_flags (world_of [failed_fetch, failed_fetch, failed_fetch])) = Exit 5"
    by (simp add: run_defs)
  have e2: "fst (main_go default_flags (world_of [failed_fetch, failed_fetch, failed_fetch])) = Exit 5"
    by (simp add: run_defs)
  note t1 = failed_fetch_retries_or_exits[where fl = default_flags and r = failed_fetch and st = initial_state
      and re = MatchString_default and k = "''K''"
      and w = "world_of [failed_fetch, failed_fetch, failed_fetch]"]
  note t2 = failed_fetch_retries_or_exits[where fl = default_flags and r = "page_of [] True"
      and st = "initial_state\<lparr>streamErrors := 2\<rparr>" and re = MatchString_default and k = "''K''"
      and w = "world_of [failed_fetch, failed_fetch, failed_fetch]"]
  from t1 http bad e1 e2 have a:
    "\<exists>st'. body_part_000 default_flags MatchString_default ''K'' initial_state failed_fetch = Continue st' \<and>
          streamErrors st' = 1 \<and> currentPage st' = 1 \<and> lastPage st' = 1 \<and> counter st' = 0 \<and> ranks st' = [] \<and>
          fetched_pages (events st') = [1]"
    "\<exists>st'. body_main_go default_flags MatchString_default ''K'' initial_state failed_fetch = Continue st' \<and>
          streamErrors st' = 1 \<and> currentPage st' = 1 \<and> lastPage st' = 1 \<and> counter st' = 0 \<and> ranks st' = [] \<and>
          fetched_pages (events st') = [1]"
    "filter writes_output (snd (main_part_000 default_flags (world_of [failed_fetch, failed_fetch, failed_fetch]))) = []"
    "filter writes_output (snd (main_go default_flags (world_of [failed_fetch, failed_fetch, failed_fetch]))) = []"
    by (simp_all add: initial_state_def MaxErrors_def)
  from t2 http bad have b:
    "\<exists>ev. body_part_000 default_flags MatchString_default ''K'' (initial_state\<lparr>streamErrors := 2\<rparr>) (page_of [] True)
          = OsExit 5 ev \<and> filter writes_output ev = []"
    "\<exists>ev. body_main_go default_flags MatchString_default ''K'' (initial_state\<lparr>streamErrors := 2\<rparr>) (page_of [] True)
          = OsExit 5 ev \<and> filter writes_output ev = []"
    by (simp_all add: initial_state_def MaxErrors_def)
  from a b show ?thesis by blast
qed

text \<open>
  C6. The claim that \<open>GetKey\<close> is invoked exactly once in a run, and never on a retry,
  does not hold: the condition \<open>lastPage == currentPage\<close> is true on every pass until the
  first page has been processed, so a retry of page 1 derives the key again (in the run
  of the later driver whose first fetch fails and whose second fetch succeeds, \<open>GetKey\<close>
  is called twice; in the run of src/main.go whose three fetches fail it is called three
  times). What holds, for both drivers in HTTP mode, at the end of a run and whenever the
  run waits for the result of a fetch: \<open>GetKey\<close> has been called right before a fetch
  exactly when the fetch asked for page 1, so before the very first fetch and before each
  retry of page 1, and never before a fetch of a later page, neither on a page advance nor
  on a retry; the number of calls equals the number of requests for page 1 and is at most
  three. Once the loop has been entered (the flags are accepted and the pattern
  compiles), \<open>GetKey\<close> has been called exactly once if and only if the first fetch has not
  returned yet or has returned a page with items and no error (in src/main.go: for a first
  fetch that returns a page or an error).
\<close>

theorem GetKey_called_before_each_fetch_of_page_1:
  "(flag_json fl = [] \<longrightarrow>
      list_all (\<lambda>(p, k). k = (p = 1)) (attempts False (snd (main_part_000 fl w))) \<and>
      GetKey_calls (snd (main_part_000 fl w)) = length (filter (\<lambda>p. p = 1) (fetched_pages (snd (main_part_000 fl w)))) \<and>
      GetKey_calls (snd (main_part_000 fl w)) \<le> 3 \<and>
      (attempts False (snd (main_part_000 fl w)) = [] \<or> hd (attempts False (snd (main_part_000 fl w))) = (1, True)))
   \<and> (flag_json fl = [] \<longrightarrow>
      list_all (\<lambda>(p, k). k = (p = 1)) (attempts False (snd (main_go fl w))) \<and>
      GetKey_calls (snd (main_go fl w)) = length (filter (\<lambda>p. p = 1) (fetched_pages (snd (main_go fl w)))) \<and>
      GetKey_calls (snd (main_go fl w)) \<le> 3 \<and>
      (attempts False (snd (main_go fl w)) = [] \<or> hd (attempts False (snd (main_go fl w))) = (1, True)))
   \<and> (flag_json fl = [] \<and> \<not> (flag_publish fl \<noteq> [] \<and> flag_mdrsp fl = []) \<and>
       Compile w (''(?i)'' @ flag_location fl) \<noteq> None \<longrightarrow>
      (GetKey_calls (snd (main_part_000 fl w)) = 1) = (Stream w = [] \<or> \<not> fetch_failed (hd (Stream w))))
   \<and> (flag_json fl = [] \<and> Compile w (''(?i)'' @ flag_location fl) \<noteq> None \<and>
       (Stream w \<noteq> [] \<longrightarrow> well_formed (hd (Stream w))) \<longrightarrow>
      (GetKey_calls (snd (main_go fl w)) = 1) = (Stream w = [] \<or> \<not> fetch_failed (hd (Stream w))))"
proof -
  have p1: "flag_json fl = [] \<longrightarrow>
      list_all (\<lambda>(p, k). k = (p = 1)) (attempts False (snd (main_part_000 fl w))) \<and>
      GetKey_calls (snd (main_part_000 fl w)) = length (filter (\<lambda>p. p = 1) (fetched_pages (snd (main_part_000 fl w)))) \<and>
      GetKey_calls (snd (main_part_000 fl w)) \<le> 3 \<and>
      (attempts False (snd (main_part_000 fl w)) = [] \<or> hd (attempts False (snd (main_part_000 fl w))) = (1, True))"
    using key_trace_ok_main_part_000[of fl w] unfolding key_trace_ok_def by blast
  have p2: "flag_json fl = [] \<longrightarrow>
      list_all (\<lambda>(p, k). k = (p = 1)) (attempts False (snd (main_go fl w))) \<and>
      GetKey_calls (snd (main_go fl w)) = length (filter (\<lambda>p. p = 1) (fetched_pages (snd (main_go fl w)))) \<and>
      GetKey_calls (snd (main_go fl w)) \<le> 3 \<and>
      (attempts False (snd (main_go fl w)) = [] \<or> hd (attempts False (snd (main_go fl w))) = (1, True))"
    using key_trace_ok_main_go[of fl w] unfolding key_trace_ok_def by blast
  have p3: "flag_json fl = [] \<and> \<not> (flag_publish fl \<noteq> [] \<and> flag_mdrsp fl = []) \<and>
       Compile w (''(?i)'' @ flag_location fl) \<noteq> None \<longrightarrow>
      (GetKey_calls (snd (main_part_000 fl w)) = 1) = (Stream w = [] \<or> \<not> fetch_failed (hd (Stream w)))"
  proof
    assume a: "flag_json fl = [] \<and> \<not> (flag_publish fl \<noteq> [] \<and> flag_mdrsp fl = []) \<and>
       Compile w (''(?i)'' @ flag_location fl) \<noteq> None"
    then have h: "flag_json fl = []" "\<not> (flag_publish fl \<noteq> [] \<and> flag_mdrsp fl = [])"
      "Compile w (''(?i)'' @ flag_location fl) \<noteq> None" by blast+
    show "(GetKey_calls (snd (main_part_000 fl w)) = 1) = (Stream w = [] \<or> \<not> fetch_failed (hd (Stream w)))"
    proof (cases "Stream w")
      case Nil
      with GetKey_once_part_000(1)[OF h] show ?thesis by simp
    next
      case (Cons r rs)
      with GetKey_once_part_000(2)[OF h, of r rs] show ?thesis by simp
    qed
  qed
  have p4: "flag_json fl = [] \<and> Compile w (''(?i)'' @ flag_location fl) \<noteq> None \<and>
       (Stream w \<noteq> [] \<longrightarrow> well_formed (hd (Stream w))) \<longrightarrow>
      (GetKey_calls (snd (main_go fl w)) = 1) = (Stream w = [] \<or> \<not> fetch_failed (hd (Stream w)))"
  proof
    assume a: "flag_json fl = [] \<and> Compile w (''(?i)'' @ flag_location fl) \<noteq> None \<and>
       (Stream w \<noteq> [] \<longrightarrow> well_formed (hd (Stream w)))"
    then have h: "flag_json fl = []" "Compile w (''(?i)'' @ flag_location fl) \<noteq> None" by blast+
    show "(GetKey_calls (snd (main_go fl w)) = 1) = (Stream w = [] \<or> \<not> fetch_failed (hd (Stream w)))"
    proof (cases "Stream w")
      case Nil
      with GetKey_once_main_go(1)[OF h] show ?thesis by simp
    next
      case (Cons r rs)
      with a have "well_formed r" by simp
      with GetKey_once_main_go(2)[OF h, of r rs] Cons show ?thesis by simp
    qed
  qed
  show ?thesis by (rule conjI[OF p1 conjI[OF p2 conjI[OF p3 p4]]])
qed

theorem GetKey_called_twice:
  "flag_json default_flags = []
   \<and> main_part_000 default_flags (world_of [failed_fetch, page_of [user_of 900 ''Madrid''] False]) =
       (Return,
        [LogInfo ''Trying to extract API key.'', CallGetKey, CallStreamHTTP 1 ''&key=K'',
         LogWarning ''Can't stream data.'',
         LogInfo ''Trying to extract API key.'', CallGetKey, CallStreamHTTP 1 ''&key=K'',
         LogPagesRequested 1, LogUsersFound 1])
   \<and> GetKey_calls (snd (main_part_000 default_flags
        (world_of [failed_fetch, page_of [user_of 900 ''Madrid''] False]))) = 2
   \<and> main_go default_flags (world_of [failed_fetch, failed_fetch, failed_fetch]) =
       (Exit 5,
        [LogInfo ''Trying to extract API key.'', CallGetKey, CallStreamHTTP 1 ''K'',
         LogWarning ''Can't stream data.'',
         LogInfo ''Trying to extract API key.'', CallGetKey, CallStreamHTTP 1 ''K'',
         LogWarning ''Can't stream data.'',
         LogInfo ''Trying to extract API key.'', CallGetKey, CallStreamHTTP 1 ''K'',
         LogWarning ''Can't stream data.'', LogError ''Max retry number reached''])
   \<and> GetKey_calls (snd (main_go default_flags (world_of [failed_fetch, failed_fetch, failed_fetch]))) = 3"
  by (simp add: run_defs)

theorem GetKey_called_before_each_fetch_of_page_1_witness:
  "attempts False (snd (main_part_000 default_flags
      (world_of [failed_fetch, page_of [user_of 900 ''Madrid''] True, failed_fetch,
                 page_of [user_of 800 ''Madrid''] False]))) = [(1, True), (1, True), (2, False), (2, False)]
   \<and> list_all (\<lambda>(p, k). k = (p = 1)) (attempts False (snd (main_part_000 default_flags
      (world_of [failed_fetch, page_of [user_of 900 ''Madrid''] True, failed_fetch,
                 page_of [user_of 800 ''Madrid''] False]))))
   \<and> GetKey_calls (snd (main_part_000 default_flags
      (world_of [failed_fetch, page_of [user_of 900 ''Madrid''] True, failed_fetch,
                 page_of [user_of 800 ''Madrid''] False]))) \<le> 3
   \<and> GetKey_calls (snd (main_part_000 default_flags
      (world_of [failed_fetch, page_of [user_of 900 ''Madrid''] True, failed_fetch,
                 page_of [user_of 800 ''Madrid''] False]))) \<noteq> 1
   \<and> GetKey_calls (snd (main_part_000 default_flags
      (world_of [page_of [user_of 900 ''Madrid''] True, failed_fetch,
                 page_of [user_of 800 ''Madrid''] False]))) = 1
   \<and> list_all (\<lambda>(p, k). k = (p = 1)) (attempts False (snd (main_go default_flags
      (world_of [failed_fetch, failed_fetch, failed_fetch]))))
   \<and> GetKey_calls (snd (main_go default_flags (world_of [failed_fetch, failed_fetch, failed_fetch]))) \<le> 3
   \<and> GetKey_calls (snd (main_go default_flags (world_of [failed_fetch, failed_fetch, failed_fetch]))) \<noteq> 1
   \<and> GetKey_calls (snd (main_go default_flags (world_of []))) = 1"
proof -
  let ?w1 = "world_of [failed_fetch, page_of [user_of 900 ''Madrid''] True, failed_fetch,
                 page_of [user_of 800 ''Madrid''] False]"
  let ?w2 = "world_of [page_of [user_of 900 ''Madrid''] True, failed_fetch,
                 page_of [user_of 800 ''Madrid''] False]"
  let ?w3 = "world_of [failed_fetch, failed_fetch, failed_fetch]"
  have http: "flag_json default_flags = []"
    "\<not> (flag_publish default_flags \<noteq> [] \<and> flag_mdrsp default_flags = [])"
    by (simp_all add: default_flags_def)
  have c: "Compile ?w1 (''(?i)'' @ flag_location default_flags) \<noteq> None"
    "Compile ?w2 (''(?i)'' @ flag_location default_flags) \<noteq> None"
    "Compile ?w3 (''(?i)'' @ flag_location default_flags) \<noteq> None"
    "Compile (world_of []) (''(?i)'' @ flag_location default_flags) \<noteq> None"
    by (simp_all add: world_of_def default_flags_def)
  have s: "Stream ?w1 \<noteq> []" "hd (Stream ?w1) = failed_fetch"
    "Stream ?w2 \<noteq> []" "hd (Stream ?w2) = page_of [user_of 900 ''Madrid''] True"
    "Stream ?w3 \<noteq> []" "hd (Stream ?w3) = failed_fetch" "Stream (world_of []) = []"
    by (simp_all add: world_of_def)
  have f: "fetch_failed failed_fetch" "well_formed failed_fetch"
    "\<not> fetch_failed (page_of [user_of 900 ''Madrid''] True)"
    by (simp_all add: fetch_failed_def well_formed_def failed_fetch_def page_of_def)
  have a: "attempts False (snd (main_part_000 default_flags ?w1)) = [(1, True), (1, True), (2, False), (2, False)]"
    by (simp add: run_defs)
  from GetKey_called_before_each_fetch_of_page_1[where fl = default_flags and w = ?w1] http c(1) s(1,2) f a
  have 1: "list_all (\<lambda>(p, k). k = (p = 1)) (attempts False (snd (main_part_000 default_flags ?w1)))"
    "GetKey_calls (snd (main_part_000 default_flags ?w1)) \<le> 3"
    "GetKey_calls (snd (main_part_000 default_flags ?w1)) \<noteq> 1"
    by simp_all
  from GetKey_called_before_each_fetch_of_page_1[where fl = default_flags and w = ?w2] http c(2) s(3,4) f
  have 2: "GetKey_calls (snd (main_part_000 default_flags ?w2)) = 1"
    by simp
  from GetKey_called_before_each_fetch_of_page_1[where fl = default_flags and w = ?w3] http c(3) s(5,6) f
  have 3: "list_all (\<lambda>(p, k). k = (p = 1)) (attempts False (snd (main_go default_flags ?w3)))"
    "GetKey_calls (snd (main_go default_flags ?w3)) \<le> 3"
    "GetKey_calls (snd (main_go default_flags ?w3)) \<noteq> 1"
    by simp_all
  from GetKey_called_before_each_fetch_of_page_1[where fl = default_flags and w = "world_of []"] http c(4) s(7)
  have 4: "GetKey_calls (snd (main_go default_flags (world_of []))) = 1"
    by simp
  from a 1 2 3 4 show ?thesis by blast
qed

text \<open>
  C5. After a page has been processed the later driver sets \<open>lastPage\<close> to the current
  page, adds one to \<open>currentPage\<close> and leaves the loop when \<open>currentPage >= MaxPages\<close>,
  that is, when the next page would be page \<open>MaxPages\<close> itself. With \<open>MaxPages = 1100\<close>
  and 1100 pages on offer, each with more to follow and a qualifying record, the run
  requests the pages 1 to 1099 in this order and reports 1099 pages: page 1100 is never
  requested, so the driver does not process the pages up to and including page
  \<open>MaxPages\<close>.
\<close>

theorem page_MaxPages_is_not_requested:
  "MaxPages_part_000 = 1100 \<and>
   fst (main_part_000 (default_flags\<lparr>flag_limit := 0\<rparr>)
          (world_of (replicate 1100 (page_of [user_of 900 ''Madrid''] True)))) = Return \<and>
   fetched_pages (snd (main_part_000 (default_flags\<lparr>flag_limit := 0\<rparr>)
          (world_of (replicate 1100 (page_of [user_of 900 ''Madrid''] True))))) = [1..1099] \<and>
   last (butlast (snd (main_part_000 (default_flags\<lparr>flag_limit := 0\<rparr>)
          (world_of (replicate 1100 (page_of [user_of 900 ''Madrid''] True)))))) = LogPagesRequested 1099"
proof -
  let ?fl = "default_flags\<lparr>flag_limit := 0\<rparr>"
  let ?r = "page_of [user_of 900 ''Madrid''] True"
  let ?pg = "\<lparr>Items = [user_of 900 ''Madrid''], HasMore = True, QuotaMax = 300, QuotaRemaining = 299\<rparr>"
  let ?body = "body_part_000 ?fl MatchString_default ''K''"
  have http: "flag_json ?fl = []" and lim: "flag_limit ?fl = 0" by (simp_all add: default_flags_def)
  have r: "rsp_err ?r = None" "rsp_users ?r = Some ?pg" "Items ?pg \<noteq> []" "HasMore ?pg"
      "list_all (\<lambda>u. MinReputation_part_000 \<le> uReputation u) (Items ?pg)"
    by (simp_all add: page_of_def user_of_def MinReputation_part_000_def)
  have q: "length (qualifying MinReputation_part_000 MatchString_default (Items ?pg)) = 1"
    by (simp add: qualifying_def user_of_def user0_def MinReputation_part_000_def MatchString_default_def)
  have i: "\<not> stop initial_state" "currentPage initial_state + int 1098 < MaxPages_part_000"
    by (simp_all add: initial_state_def MaxPages_part_000_def)
  from advance_pages_part_000[OF http lim r i, of MatchString_default "''K''"] q
  obtain s1 where s1: "for_loop ?body initial_state (replicate 1098 ?r) = Continue s1" "\<not> stop s1"
    "currentPage s1 = 1099" "counter s1 = 1098" "fetched_pages (events s1) = [1..1098]"
    by (auto simp add: initial_state_def)
  from advance_part_000[OF http lim r s1(2), of MatchString_default "''K''"] s1 q
  obtain s2 where s2: "?body s1 ?r = Break s2" "lastPage s2 = 1099" "counter s2 = 1099"
    "fetched_pages (events s2) = [1..1098] @ [1099]"
    by (auto simp add: MaxPages_part_000_def)
  have "replicate 1100 ?r = replicate 1098 ?r @ ?r # [?r]"
    using replicate_add[of 1098 2 ?r] by (simp add: numeral_2_eq_2)
  with s1 s2 have loop: "for_loop ?body initial_state (replicate 1100 ?r) = Break s2"
    by (simp add: for_loop_append)
  have up: "[1..1098] @ [1099] = [1..(1099::int)]"
    using upto_rec2[of 1 1099] by simp
  have c: "Compile (world_of (replicate 1100 ?r)) (''(?i)'' @ flag_location ?fl) = Some MatchString_default"
    "GetKey (world_of (replicate 1100 ?r)) = ''K''" "Stream (world_of (replicate 1100 ?r)) = replicate 1100 ?r"
    by (simp_all add: world_of_def default_flags_def)
  have np: "\<not> (flag_publish ?fl \<noteq> [] \<and> flag_mdrsp ?fl = [])" by (simp add: default_flags_def)
  from main_part_000_run[OF np c(1)] c loop
  have m: "main_part_000 ?fl (world_of (replicate 1100 ?r)) = finish_part_000 ?fl (world_of (replicate 1100 ?r)) s2"
    by simp
  have f: "finish_part_000 ?fl (world_of (replicate 1100 ?r)) s2 =
        (Return, events s2 @ [LogPagesRequested 1099, LogUsersFound 1099])"
    using s2 by (simp add: finish_part_000_def default_flags_def)
  from m f s2 up show ?thesis
    by (simp add: MaxPages_part_000_def fetched_pages_append butlast_append)
qed

text \<open>
  C2. A call of the Rank Filter that starts with ranks 1, 2, ..., \<open>c\<close> in the Result List
  and the counter at \<open>c\<close> ends with ranks 1, 2, ..., \<open>c'\<close> and the counter at \<open>c'\<close>, the
  length of the list: the ranks are strictly increasing from 1 without gaps, the entry at
  position \<open>i\<close> (from 0) has rank \<open>i + 1\<close>, the number of entries accepted when it was
  appended; the entries that were there are still there, unchanged, and the new ones
  follow them. In every run of either driver, from the counter 0 and the empty list, this
  holds whenever the loop is at its head or has been left by \<open>break\<close>, however many pages
  were processed, and the Result List at a later point of the run starts with the Result
  List of every earlier point.
\<close>

theorem ranks_count_from_1_without_gaps:
  "(0 \<le> c \<and> map Rank rs = [1..c] \<and> GetUserInfo (Some page) m loc c lim rs t = Some (rep, c', rs', out) \<longrightarrow>
      map Rank rs' = [1..c'] \<and> c' = int (length rs') \<and> take (length rs) rs' = rs \<and>
      (\<exists>acc. rs' = rs @ numbered c acc \<and> c' = c + int (length acc)) \<and>
      (\<forall>i < length rs'. Rank (rs' ! i) = int i + 1))
   \<and> (for_loop (body_part_000 fl re k) initial_state rsps = Continue st \<or>
       for_loop (body_part_000 fl re k) initial_state rsps = Break st \<longrightarrow>
      map Rank (ranks st) = [1..counter st] \<and> counter st = int (length (ranks st)))
   \<and> (for_loop (body_main_go fl re k) initial_state rsps = Continue st \<or>
       for_loop (body_main_go fl re k) initial_state rsps = Break st \<longrightarrow>
      map Rank (ranks st) = [1..counter st] \<and> counter st = int (length (ranks st)))
   \<and> (for_loop (body_part_000 fl re k) initial_state rsps = Continue st \<and>
       (for_loop (body_part_000 fl re k) initial_state (rsps @ later) = Continue st' \<or>
        for_loop (body_part_000 fl re k) initial_state (rsps @ later) = Break st') \<longrightarrow>
      take (length (ranks st)) (ranks st') = ranks st \<and> map Rank (ranks st') = [1..counter st'])
   \<and> (for_loop (body_main_go fl re k) initial_state rsps = Continue st \<and>
       (for_loop (body_main_go fl re k) initial_state (rsps @ later) = Continue st' \<or>
        for_loop (body_main_go fl re k) initial_state (rsps @ later) = Break st') \<longrightarrow>
      take (length (ranks st)) (ranks st') = ranks st \<and> map Rank (ranks st') = [1..counter st'])"
proof (intro conjI impI)
  assume a: "0 \<le> c \<and> map Rank rs = [1..c] \<and> GetUserInfo (Some page) m loc c lim rs t = Some (rep, c', rs', out)"
  then have g: "GetUserInfo_range m loc lim t (Items page) (c, rs, []) = (rep, c', rs', out)"
    by (simp add: GetUserInfo_def)
  from range_appends[of m loc lim t "Items page" c rs "[]"] g
  obtain acc where acc: "rs' = rs @ numbered c acc" "c' = c + int (length acc)" by auto
  then show "\<exists>acc. rs' = rs @ numbered c acc \<and> c' = c + int (length acc)" by blast
  from a have "length [1..c] = length rs" by (metis length_map)
  with a have len: "int (length rs) = c" by auto
  from acc a upto_from_1[of c "length acc"] show m: "map Rank rs' = [1..c']"
    by (simp add: map_Rank_numbered)
  from acc len show l: "c' = int (length rs')" by simp
  from acc show "take (length rs) rs' = rs" by simp
  show "\<forall>i<length rs'. Rank (rs' ! i) = int i + 1"
  proof (intro allI impI)
    fix i assume i: "i < length rs'"
    then have "Rank (rs' ! i) = map Rank rs' ! i" by simp
    also have "\<dots> = [1..c'] ! i" using m by simp
    also have "\<dots> = 1 + int i" using i l by (intro nth_upto) simp
    finally show "Rank (rs' ! i) = int i + 1" by simp
  qed
next
  assume "for_loop (body_part_000 fl re k) initial_state rsps = Continue st \<or>
       for_loop (body_part_000 fl re k) initial_state rsps = Break st"
  with ranks_from_initial[OF for_loop_extends[of "body_part_000 fl re k" initial_state rsps, OF body_part_000_extends], of st]
  show "map Rank (ranks st) = [1..counter st]" "counter st = int (length (ranks st))" by auto
next
  assume "for_loop (body_main_go fl re k) initial_state rsps = Continue st \<or>
       for_loop (body_main_go fl re k) initial_state rsps = Break st"
  with ranks_from_initial[OF for_loop_extends[of "body_main_go fl re k" initial_state rsps, OF body_main_go_extends], of st]
  show "map Rank (ranks st) = [1..counter st]" "counter st = int (length (ranks st))" by auto
next
  assume a: "for_loop (body_part_000 fl re k) initial_state rsps = Continue st \<and>
       (for_loop (body_part_000 fl re k) initial_state (rsps @ later) = Continue st' \<or>
        for_loop (body_part_000 fl re k) initial_state (rsps @ later) = Break st')"
  from ranks_later[of "body_part_000 fl re k" rsps st later st', OF body_part_000_extends] a
  show "take (length (ranks st)) (ranks st') = ranks st" "map Rank (ranks st') = [1..counter st']" by auto
next
  assume a: "for_loop (body_main_go fl re k) initial_state rsps = Continue st \<and>
       (for_loop (body_main_go fl re k) initial_state (rsps @ later) = Continue st' \<or>
        for_loop (body_main_go fl re k) initial_state (rsps @ later) = Break st')"
  from ranks_later[of "body_main_go fl re k" rsps st later st', OF body_main_go_extends] a
  show "take (length (ranks st)) (ranks st') = ranks st" "map Rank (ranks st') = [1..counter st']" by auto
qed

theorem ranks_count_from_1_without_gaps_witness:
  "map Rank [rank_entry 1 (user_of 950 ''Paris''), rank_entry 2 (user_of 900 ''Madrid''),
             rank_entry 3 (user_of 800 ''Lyon'')] = [1..3]
   \<and> (\<exists>st st'. for_loop (body_part_000 default_flags MatchString_default ''K'') initial_state
            [page_of [user_of 900 ''Madrid''] True] = Continue st
        \<and> for_loop (body_part_000 default_flags MatchString_default ''K'') initial_state
            ([page_of [user_of 900 ''Madrid''] True] @ [page_of [user_of 800 ''Lyon''] False]) = Break st'
        \<and> ranks st = [rank_entry 1 (user_of 900 ''Madrid'')]
        \<and> map Rank (ranks st) = [1..counter st]
        \<and> take (length (ranks st)) (ranks st') = ranks st \<and> map Rank (ranks st') = [1..counter st']
        \<and> counter st' = 2)
   \<and> (\<exists>st'. for_loop (body_main_go (default_flags\<lparr>flag_json := ''users.json''\<rparr>) MatchString_default ''K'')
            initial_state ([] @ [page_of [user_of 900 ''Madrid'', user_of 800 ''Lyon''] False]) = Break st'
        \<and> map Rank (ranks st') = [1..counter st'] \<and> counter st' = 2)"
proof -
  let ?b = "body_part_000 default_flags MatchString_default ''K''"
  let ?g = "body_main_go (default_flags\<lparr>flag_json := ''users.json''\<rparr>) MatchString_default ''K''"
  let ?p1 = "page_of [user_of 900 ''Madrid''] True"
  let ?p2 = "page_of [user_of 800 ''Lyon''] False"
  let ?p3 = "page_of [user_of 900 ''Madrid'', user_of 800 ''Lyon''] False"
  let ?rs = "[rank_entry 1 (user_of 950 ''Paris'')]"
  let ?pg = "\<lparr>Items = [user_of 900 ''Madrid'', user_of 800 ''Lyon''], HasMore = True, QuotaMax = 300, QuotaRemaining = 299\<rparr>"
  have g: "GetUserInfo (Some ?pg) MinReputation_part_000 MatchString_default 1 20 ?rs False =
      Some (True, 3, [rank_entry 1 (user_of 950 ''Paris''), rank_entry 2 (user_of 900 ''Madrid''),
             rank_entry 3 (user_of 800 ''Lyon'')], [])"
    by (simp add: run_defs)
  have pre: "(0::int) \<le> 1" "map Rank ?rs = [1..1]" by (simp_all add: rank_entry_def)
  obtain st where st: "for_loop ?b initial_state [?p1] = Continue st"
      "ranks st = [rank_entry 1 (user_of 900 ''Madrid'')]"
    by (simp add: run_defs)
  obtain st' where st': "for_loop ?b initial_state ([?p1] @ [?p2]) = Break st'" "counter st' = 2"
    by (simp add: run_defs)
  have st0: "for_loop ?g initial_state [] = Continue initial_state" by simp
  obtain s' where s': "for_loop ?g initial_state ([] @ [?p3]) = Break s'" "counter s' = 2"
    by (simp add: run_defs)
  note t1 = ranks_count_from_1_without_gaps[where c = 1 and rs = ?rs and page = ?pg and m = MinReputation_part_000
      and loc = MatchString_default and lim = 20 and t = False and rep = True and c' = 3
      and rs' = "[rank_entry 1 (user_of 950 ''Paris''), rank_entry 2 (user_of 900 ''Madrid''),
             rank_entry 3 (user_of 800 ''Lyon'')]" and out = "[]"
      and fl = default_flags and re = MatchString_default and k = "''K''" and rsps = "[?p1]" and st = st
      and later = "[?p2]" and st' = st']
  note t2 = ranks_count_from_1_without_gaps[where fl = "default_flags\<lparr>flag_json := ''users.json''\<rparr>"
      and re = MatchString_default and k = "''K''" and rsps = "[]" and st = initial_state
      and later = "[?p3]" and st' = s']
  from t1 g pre st st' have a:
    "map Rank [rank_entry 1 (user_of 950 ''Paris''), rank_entry 2 (user_of 900 ''Madrid''),
             rank_entry 3 (user_of 800 ''Lyon'')] = [1..3]"
    "map Rank (ranks st) = [1..counter st]"
    "take (length (ranks st)) (ranks st') = ranks st" "map Rank (ranks st') = [1..counter st']"
    by blast+
  from t2 st0 s' have b: "map Rank (ranks s') = [1..counter s']" by blast
  from a b st st' s' show ?thesis by blast
qed

text \<open>
  C7. The default value of the flag \<open>location\<close> is \<open>.\<close>, which \<open>DumpMarkdown\<close> labels
  "WorldWide"; the drivers compile it as \<open>(?i).\<close>, a pattern that needs one character other
  than a newline. So the default does not match every location: a record whose location
  is the empty string is not accepted. Whatever the page, the minimum reputation, the
  limit and the counter, no entry that the Rank Filter appends under the default pattern
  has an empty location; without a limit it appends exactly the records at or above the
  minimum (before the first one below it) whose location holds a character other than a
  newline. Of the records with reputations 900, 800 and 700 and locations "Madrid", ""
  and "Paris" it accepts the first and the third. In the run of either driver whose only
  record has reputation 900 and an empty location the filter accepts nothing, and the run
  ends with "No results found." and exit code 0.
\<close>

theorem empty_location_is_not_accepted:
  "flag_location default_flags = ''.''
   \<and> fmtLocation (flag_location default_flags) = '': WorldWide''
   \<and> Compile (world_of []) (''(?i)'' @ flag_location default_flags) = Some MatchString_default
   \<and> \<not> MatchString_default (uLocation (user_of 900 ''''))
   \<and> list_all (\<lambda>e. Location e \<noteq> [])
        (fst (snd (snd (GetUserInfo_range m MatchString_default lim t xs (c, [], out)))))
   \<and> quiet (GetUserInfo_range m MatchString_default 0 t xs (c, rs, out)) =
        (list_all (\<lambda>u. m \<le> uReputation u) xs,
         c + int (length (filter (\<lambda>u. list_ex (\<lambda>ch. ch \<noteq> CHR 0x0A) (uLocation u))
                            (takeWhile (\<lambda>u. m \<le> uReputation u) xs))),
         rs @ numbered c (filter (\<lambda>u. list_ex (\<lambda>ch. ch \<noteq> CHR 0x0A) (uLocation u))
                            (takeWhile (\<lambda>u. m \<le> uReputation u) xs)))
   \<and> GetUserInfo
        (Some \<lparr>Items = [user_of 900 ''Madrid'', user_of 800 '''', user_of 700 ''Paris''],
               HasMore = False, QuotaMax = 300, QuotaRemaining = 299\<rparr>)
        MinReputation_part_000 MatchString_default 0 (flag_limit default_flags) [] False
       = Some (True, 2, [rank_entry 1 (user_of 900 ''Madrid''), rank_entry 2 (user_of 700 ''Paris'')], [])
   \<and> main_part_000 default_flags (world_of [page_of [user_of 900 ''''] False]) =
       (Exit 0, [LogInfo ''Trying to extract API key.'', CallGetKey, CallStreamHTTP 1 ''&key=K'',
                 LogWarning ''No results found.''])
   \<and> main_go (default_flags\<lparr>flag_json := ''users.json''\<rparr>) (world_of [page_of [user_of 900 ''''] False]) =
       (Exit 0, [LogInfo ''Extracting from source JSON file.'', CallStreamFile ''users.json'',
                 LogWarning ''No results found.''])"
proof -
  have a: "flag_location default_flags = ''.''" by (simp add: default_flags_def)
  have b: "fmtLocation (flag_location default_flags) = '': WorldWide''"
    by (simp add: default_flags_def fmtLocation_def)
  have c: "Compile (world_of []) (''(?i)'' @ flag_location default_flags) = Some MatchString_default"
    by (simp add: world_of_def default_flags_def)
  have d: "\<not> MatchString_default (uLocation (user_of 900 ''''))"
    by (simp add: MatchString_default_def user_of_def)
  have "list_all (\<lambda>e. MatchString_default (Location e))
          (fst (snd (snd (GetUserInfo_range m MatchString_default lim t xs (c, [], out)))))"
    by (rule range_locations) simp
  then have e: "list_all (\<lambda>e. Location e \<noteq> [])
        (fst (snd (snd (GetUserInfo_range m MatchString_default lim t xs (c, [], out)))))"
    by (auto simp add: list_all_iff MatchString_default_def)
  have f: "quiet (GetUserInfo_range m MatchString_default 0 t xs (c, rs, out)) =
        (list_all (\<lambda>u. m \<le> uReputation u) xs,
         c + int (length (filter (\<lambda>u. list_ex (\<lambda>ch. ch \<noteq> CHR 0x0A) (uLocation u))
                            (takeWhile (\<lambda>u. m \<le> uReputation u) xs))),
         rs @ numbered c (filter (\<lambda>u. list_ex (\<lambda>ch. ch \<noteq> CHR 0x0A) (uLocation u))
                            (takeWhile (\<lambda>u. m \<le> uReputation u) xs)))"
    using range_unlimited[of m MatchString_default t xs c rs out]
    by (simp add: qualifying_def MatchString_default_def)
  have g: "GetUserInfo
        (Some \<lparr>Items = [user_of 900 ''Madrid'', user_of 800 '''', user_of 700 ''Paris''],
               HasMore = False, QuotaMax = 300, QuotaRemaining = 299\<rparr>)
        MinReputation_part_000 MatchString_default 0 (flag_limit default_flags) [] False
       = Some (True, 2, [rank_entry 1 (user_of 900 ''Madrid''), rank_entry 2 (user_of 700 ''Paris'')], [])"
    by (simp add: GetUserInfo_def MinReputation_part_000_def MatchString_default_def user_of_def
        default_flags_def)
  have h: "main_part_000 default_flags (world_of [page_of [user_of 900 ''''] False]) =
       (Exit 0, [LogInfo ''Trying to extract API key.'', CallGetKey, CallStreamHTTP 1 ''&key=K'',
                 LogWarning ''No results found.''])"
    by (simp add: run_defs)
  have i: "main_go (default_flags\<lparr>flag_json := ''users.json''\<rparr>) (world_of [page_of [user_of 900 ''''] False]) =
       (Exit 0, [LogInfo ''Extracting from source JSON file.'', CallStreamFile ''users.json'',
                 LogWarning ''No results found.''])"
    by (simp add: run_defs)
  show ?thesis
    by (rule conjI[OF a conjI[OF b conjI[OF c conjI[OF d conjI[OF e conjI[OF f conjI[OF g conjI[OF h i]]]]]]]])
qed

text \<open>
  C3. With \<open>limit = N > 0\<close>: a call of the Rank Filter that starts below the limit, with
  the ranks 1 to \<open>c\<close> in the Result List, leaves at most \<open>N\<close> entries in it, returns false when
  the counter has reached \<open>N\<close>, and the final entry has rank \<open>N\<close> exactly when the page
  held at least \<open>N - c\<close> qualifying records (at or above the minimum reputation, before
  any record below it, with a matching location). For a run of either driver, from the
  counter 0 and the empty list: while the loop goes on, the Result List holds all the
  qualifying records of the pages handed to the filter so far, fewer than \<open>N\<close>; when the
  loop is left by \<open>break\<close>, the Result List holds the first \<open>N\<close> qualifying records of all
  the pages that were handed to the filter (all of them when there are fewer), so it has
  at most \<open>N\<close> entries, and its final entry has rank \<open>N\<close> if and only if these pages held
  at least \<open>N\<close> qualifying records.
\<close>

theorem limit_bounds_the_result_list:
  "(0 < N \<and> 0 \<le> c \<and> c < N \<and> map Rank rs = [1..c] \<and>
    GetUserInfo (Some page) m loc c N rs t = Some (rep, c', rs', out) \<longrightarrow>
      length rs' \<le> nat N \<and> c' = int (length rs') \<and> (c' = N \<longrightarrow> \<not> rep) \<and>
      ((rs' \<noteq> [] \<and> Rank (last rs') = N) \<longleftrightarrow> N \<le> c + int (length (qualifying m loc (Items page)))))
   \<and> (0 < flag_limit fl \<and> for_loop (body_part_000 fl re k) initial_state rsps = Continue st \<longrightarrow>
      ranks st = numbered 0 (qualifying MinReputation_part_000 re (handed_over rsps)) \<and>
      length (ranks st) < nat (flag_limit fl))
   \<and> (0 < flag_limit fl \<and> for_loop (body_part_000 fl re k) initial_state rsps = Continue sh \<and>
       body_part_000 fl re k sh r = Break st \<longrightarrow>
      ranks st = numbered 0 (take (nat (flag_limit fl))
                   (qualifying MinReputation_part_000 re (handed_over (rsps @ [r])))) \<and>
      length (ranks st) \<le> nat (flag_limit fl) \<and>
      ((ranks st \<noteq> [] \<and> Rank (last (ranks st)) = flag_limit fl) \<longleftrightarrow>
         nat (flag_limit fl) \<le> length (qualifying MinReputation_part_000 re (handed_over (rsps @ [r])))))
   \<and> (0 < flag_limit fl \<and> for_loop (body_main_go fl re k) initial_state rsps = Continue st \<longrightarrow>
      ranks st = numbered 0 (qualifying MinReputation_main_go re (handed_over rsps)) \<and>
      length (ranks st) < nat (flag_limit fl))
   \<and> (0 < flag_limit fl \<and> for_loop (body_main_go fl re k) initial_state rsps = Continue sh \<and>
       body_main_go fl re k sh r = Break st \<longrightarrow>
      ranks st = numbered 0 (take (nat (flag_limit fl))
                   (qualifying MinReputation_main_go re (handed_over (rsps @ [r])))) \<and>
      length (ranks st) \<le> nat (flag_limit fl) \<and>
      ((ranks st \<noteq> [] \<and> Rank (last (ranks st)) = flag_limit fl) \<longleftrightarrow>
         nat (flag_limit fl) \<le> length (qualifying MinReputation_main_go re (handed_over (rsps @ [r])))))"
proof -
  let ?G = "GetUserInfo_range MinReputation_part_000 re (flag_limit fl) (flag_term fl)"
  let ?H = "GetUserInfo_range MinReputation_main_go re (flag_limit fl) (flag_term fl)"
  let ?P = "\<lambda>s. flag_json fl = [] \<longrightarrow> users s = None"
  have P0: "?P initial_state" by (simp add: initial_state_def)
  have i0: "counter initial_state = 0" "ranks initial_state = []" by (simp_all add: initial_state_def)
  have A: "length rs' \<le> nat N \<and> c' = int (length rs') \<and> (c' = N \<longrightarrow> \<not> rep) \<and>
      ((rs' \<noteq> [] \<and> Rank (last rs') = N) \<longleftrightarrow> N \<le> c + int (length (qualifying m loc (Items page))))"
    if "0 < N \<and> 0 \<le> c \<and> c < N \<and> map Rank rs = [1..c] \<and>
        GetUserInfo (Some page) m loc c N rs t = Some (rep, c', rs', out)"
  proof -
    from that have g: "GetUserInfo_range m loc N t (Items page) (c, rs, []) = (rep, c', rs', out)"
      by (simp add: GetUserInfo_def)
    from that limited_call[OF _ _ _ _ g] show ?thesis by blast
  qed
  have B1: "ranks st = numbered 0 (qualifying MinReputation_part_000 re (handed_over rsps)) \<and>
      length (ranks st) < nat (flag_limit fl)"
    if "0 < flag_limit fl \<and> for_loop (body_part_000 fl re k) initial_state rsps = Continue st"
  proof -
    from for_loop_filters[where P = "\<lambda>s. True" and G = ?G and body = "body_part_000 fl re k"
        and st = initial_state and rsps = rsps and st' = st, OF filters_part_000 _ refl] that
    have "quiet (?G (handed_over rsps) (0, [], [])) = (True, counter st, ranks st)" by (simp add: i0)
    from unlimited_from_0[OF _ this] that show ?thesis by simp
  qed
  have B2: "ranks st = numbered 0 (take (nat (flag_limit fl))
                   (qualifying MinReputation_part_000 re (handed_over (rsps @ [r])))) \<and>
      length (ranks st) \<le> nat (flag_limit fl) \<and>
      ((ranks st \<noteq> [] \<and> Rank (last (ranks st)) = flag_limit fl) \<longleftrightarrow>
         nat (flag_limit fl) \<le> length (qualifying MinReputation_part_000 re (handed_over (rsps @ [r]))))"
    if "0 < flag_limit fl \<and> for_loop (body_part_000 fl re k) initial_state rsps = Continue sh \<and>
       body_part_000 fl re k sh r = Break st"
  proof -
    from for_loop_filters_Break[where P = "\<lambda>s. True" and G = ?G and body = "body_part_000 fl re k"
        and st = initial_state and pre = rsps and sh = sh and r = r and st' = st, OF filters_part_000 _ refl] that
    have "snd (quiet (?G (handed_over (rsps @ [r])) (0, [], []))) = (counter st, ranks st)" by (simp add: i0)
    from limited_from_0[OF _ this] that show ?thesis by simp
  qed
  have C1: "ranks st = numbered 0 (qualifying MinReputation_main_go re (handed_over rsps)) \<and>
      length (ranks st) < nat (flag_limit fl)"
    if "0 < flag_limit fl \<and> for_loop (body_main_go fl re k) initial_state rsps = Continue st"
  proof -
    from for_loop_filters[where P = ?P and G = ?H and body = "body_main_go fl re k"
        and st = initial_state and rsps = rsps and st' = st, OF filters_main_go refl P0] that
    have "quiet (?H (handed_over rsps) (0, [], [])) = (True, counter st, ranks st)" by (simp add: i0)
    from unlimited_from_0[OF _ this] that show ?thesis by simp
  qed
  have C2: "ranks st = numbered 0 (take (nat (flag_limit fl))
                   (qualifying MinReputation_main_go re (handed_over (rsps @ [r])))) \<and>
      length (ranks st) \<le> nat (flag_limit fl) \<and>
      ((ranks st \<noteq> [] \<and> Rank (last (ranks st)) = flag_limit fl) \<longleftrightarrow>
         nat (flag_limit fl) \<le> length (qualifying MinReputation_main_go re (handed_over (rsps @ [r]))))"
    if "0 < flag_limit fl \<and> for_loop (body_main_go fl re k) initial_state rsps = Continue sh \<and>
       body_main_go fl re k sh r = Break st"
  proof -
    from for_loop_filters_Break[where P = ?P and G = ?H and body = "body_main_go fl re k"
        and st = initial_state and pre = rsps and sh = sh and r = r and st' = st, OF filters_main_go refl P0] that
    have "snd (quiet (?H (handed_over (rsps @ [r])) (0, [], []))) = (counter st, ranks st)" by (simp add: i0)
    from limited_from_0[OF _ this] that show ?thesis by simp
  qed
  from A B1 B2 C1 C2 show ?thesis by blast
qed

theorem limit_bounds_the_result_list_witness:
  "GetUserInfo (Some (new_SOUsers\<lparr>Items := [user_of 900 ''Madrid'', user_of 800 ''Lyon'']\<rparr>)) MinReputation_part_000
      MatchString_default 1 2 [rank_entry 1 (user_of 950 ''Paris'')] False
    = Some (False, 2, [rank_entry 1 (user_of 950 ''Paris''), rank_entry 2 (user_of 900 ''Madrid'')], [])
   \<and> Rank (last [rank_entry 1 (user_of 950 ''Paris''), rank_entry 2 (user_of 900 ''Madrid'')]) = 2
   \<and> (\<exists>sh st. for_loop (body_part_000 (default_flags\<lparr>flag_limit := 2\<rparr>) MatchString_default ''K'') initial_state
                 [page_of [user_of 900 ''Madrid''] True] = Continue sh
        \<and> ranks sh = numbered 0 [user_of 900 ''Madrid'']
        \<and> body_part_000 (default_flags\<lparr>flag_limit := 2\<rparr>) MatchString_default ''K'' sh
             (page_of [user_of 800 ''Lyon'', user_of 700 ''Rome''] True) = Break st
        \<and> ranks st = numbered 0 [user_of 900 ''Madrid'', user_of 800 ''Lyon'']
        \<and> Rank (last (ranks st)) = 2)
   \<and> (\<exists>st. body_main_go (default_flags\<lparr>flag_json := ''users.json'', flag_limit := 2\<rparr>) MatchString_default ''K''
              initial_state (page_of [user_of 900 ''Madrid'', user_of 450 ''''] False) = Break st
        \<and> ranks st = numbered 0 [user_of 900 ''Madrid'']
        \<and> \<not> (ranks st \<noteq> [] \<and> Rank (last (ranks st)) = 2))"
proof -
  let ?fl = "default_flags\<lparr>flag_limit := 2\<rparr>"
  let ?ff = "default_flags\<lparr>flag_json := ''users.json'', flag_limit := 2\<rparr>"
  let ?b = "body_part_000 ?fl MatchString_default ''K''"
  let ?g = "body_main_go ?ff MatchString_default ''K''"
  let ?p1 = "page_of [user_of 900 ''Madrid''] True"
  let ?p2 = "page_of [user_of 800 ''Lyon'', user_of 700 ''Rome''] True"
  let ?p3 = "page_of [user_of 900 ''Madrid'', user_of 450 ''''] False"
  let ?pg = "new_SOUsers\<lparr>Items := [user_of 900 ''Madrid'', user_of 800 ''Lyon'']\<rparr>"
  let ?rs = "[rank_entry 1 (user_of 950 ''Paris'')]"
  let ?rs' = "[rank_entry 1 (user_of 950 ''Paris''), rank_entry 2 (user_of 900 ''Madrid'')]"
  have g: "GetUserInfo (Some ?pg) MinReputation_part_000 MatchString_default 1 2 ?rs False = Some (False, 2, ?rs', [])"
    by (simp add: run_defs)
  have pre: "(0::int) < 2" "(0::int) \<le> 1" "(1::int) < 2" "map Rank ?rs = [1..1]" by (simp_all add: rank_entry_def)
  have lim: "0 < flag_limit ?fl" "0 < flag_limit ?ff" "flag_limit ?fl = 2" "flag_limit ?ff = 2"
    by (simp_all add: default_flags_def)
  have q1: "qualifying MinReputation_part_000 MatchString_default (Items ?pg) = [user_of 900 ''Madrid'', user_of 800 ''Lyon'']"
    by (simp add: run_defs qualifying_def)
  have q2: "qualifying MinReputation_part_000 MatchString_default (handed_over [?p1]) = [user_of 900 ''Madrid'']"
    "qualifying MinReputation_part_000 MatchString_default (handed_over ([?p1] @ [?p2])) =
       [user_of 900 ''Madrid'', user_of 800 ''Lyon'', user_of 700 ''Rome'']"
    "qualifying MinReputation_main_go MatchString_default (handed_over ([] @ [?p3])) = [user_of 900 ''Madrid'']"
    by (simp_all add: run_defs qualifying_def handed_over_def fetch_failed_def)
  have "\<exists>sh st. for_loop ?b initial_state [?p1] = Continue sh \<and> ?b sh ?p2 = Break st"
    by (simp add: run_defs)
  then obtain sh st where sh: "for_loop ?b initial_state [?p1] = Continue sh" and st: "?b sh ?p2 = Break st"
    by blast
  have h0: "for_loop ?g initial_state [] = Continue initial_state" by simp
  obtain s' where s': "?g initial_state ?p3 = Break s'" by (simp add: run_defs)
  note t1 = limit_bounds_the_result_list[where N = 2 and c = 1 and rs = ?rs and page = ?pg
      and m = MinReputation_part_000 and loc = MatchString_default and t = False and rep = False and c' = 2
      and rs' = ?rs' and out = "[]" and fl = ?fl and re = MatchString_default and k = "''K''"
      and rsps = "[?p1]" and st = sh]
  note t2 = limit_bounds_the_result_list[where fl = ?fl and re = MatchString_default and k = "''K''"
      and rsps = "[?p1]" and sh = sh and r = ?p2 and st = st]
  note t3 = limit_bounds_the_result_list[where fl = ?ff and re = MatchString_default and k = "''K''"
      and rsps = "[]" and sh = initial_state and r = ?p3 and st = s']
  note A = t1[THEN conjunct1]
  note B1 = t1[THEN conjunct2, THEN conjunct1]
  note B2 = t2[THEN conjunct2, THEN conjunct2, THEN conjunct1]
  note C2 = t3[THEN conjunct2, THEN conjunct2, THEN conjunct2, THEN conjunct2]
  from A g pre q1 have a: "Rank (last ?rs') = 2" by (simp add: rank_entry_def)
  from B1 lim sh q2 have b: "ranks sh = numbered 0 [user_of 900 ''Madrid'']" by simp
  from B2 lim sh st q2 have c: "ranks st = numbered 0 [user_of 900 ''Madrid'', user_of 800 ''Lyon'']"
      "Rank (last (ranks st)) = 2" by (simp_all add: rank_entry_def)
  from C2 lim h0 s' q2 have d: "ranks s' = numbered 0 [user_of 900 ''Madrid'']"
      "\<not> (ranks s' \<noteq> [] \<and> Rank (last (ranks s')) = 2)" by (simp_all add: rank_entry_def)
  from g a b c d sh st s' show ?thesis by blast
qed


end
